theory Spec2Isabelle
  imports Complex_Main
begin

section \<open>Values of the interpreter\<close>

text \<open>
  The plugin \<^verbatim>\<open>marketplace/webhook-tester/plugin.py\<close> is Python. A Python \<^verbatim>\<open>str\<close> is a
  sequence of code points and a \<^verbatim>\<open>bytes\<close> object a sequence of integers below 256; both are
  lists of naturals here. \<open>str\<close> turns an ASCII literal of the source into its code points.
\<close>

type_synonym pystr = "nat list"
type_synonym pybytes = "nat list"

abbreviation str :: "string \<Rightarrow> pystr" where
  "str s \<equiv> map of_char s"

text \<open>The exceptions the modelled code paths can raise; all are subclasses of
  \<^verbatim>\<open>Exception\<close>.\<close>

datatype py_error =
    ValueError
  | UnicodeDecodeError
  | UnicodeEncodeError
  | FileNotFoundError
  | JSONDecodeError
  | MarkupError
  | ConnectionError
  | Timeout
  | OverflowError
  | MemoryError

subsection \<open>\<^verbatim>\<open>bytes.decode('utf-8')\<close> and \<^verbatim>\<open>str.encode()\<close>\<close>

text \<open>
  The strict UTF-8 codec of the interpreter: well-formed sequences only (no overlong forms,
  no surrogates, nothing above U+10FFFF). \<open>None\<close> is \<^verbatim>\<open>UnicodeDecodeError\<close>, respectively
  \<^verbatim>\<open>UnicodeEncodeError\<close>.
\<close>

definition cont :: "nat \<Rightarrow> bool" where
  "cont b \<longleftrightarrow> 0x80 \<le> b \<and> b \<le> 0xBF"

fun utf8_decode :: "pybytes \<Rightarrow> pystr option" where
  "utf8_decode [] = Some []"
| "utf8_decode (b0 # bs) =
     (if b0 < 0x80 then map_option ((#) b0) (utf8_decode bs)
      else if 0xC2 \<le> b0 \<and> b0 \<le> 0xDF then
        (case bs of
           b1 # r \<Rightarrow>
             if cont b1
             then map_option ((#) ((b0 - 0xC0) * 0x40 + (b1 - 0x80))) (utf8_decode r)
             else None
         | _ \<Rightarrow> None)
      else if 0xE0 \<le> b0 \<and> b0 \<le> 0xEF then
        (case bs of
           b1 # b2 # r \<Rightarrow>
             if (if b0 = 0xE0 then 0xA0 else 0x80) \<le> b1
                \<and> b1 \<le> (if b0 = 0xED then 0x9F else 0xBF) \<and> cont b2
             then map_option
                    ((#) ((b0 - 0xE0) * 0x1000 + (b1 - 0x80) * 0x40 + (b2 - 0x80)))
                    (utf8_decode r)
             else None
         | _ \<Rightarrow> None)
      else if 0xF0 \<le> b0 \<and> b0 \<le> 0xF4 then
        (case bs of
           b1 # b2 # b3 # r \<Rightarrow>
             if (if b0 = 0xF0 then 0x90 else 0x80) \<le> b1
                \<and> b1 \<le> (if b0 = 0xF4 then 0x8F else 0xBF) \<and> cont b2 \<and> cont b3
             then map_option
                    ((#) ((b0 - 0xF0) * 0x40000 + (b1 - 0x80) * 0x1000
                          + (b2 - 0x80) * 0x40 + (b3 - 0x80)))
                    (utf8_decode r)
             else None
         | _ \<Rightarrow> None)
      else None)"

definition utf8_encode_char :: "nat \<Rightarrow> pybytes option" where
  "utf8_encode_char c =
     (if c < 0x80 then Some [c]
      else if c < 0x800 then Some [0xC0 + c div 0x40, 0x80 + c mod 0x40]
      else if 0xD800 \<le> c \<and> c < 0xE000 then None
      else if c < 0x10000 then
        Some [0xE0 + c div 0x1000, 0x80 + c div 0x40 mod 0x40, 0x80 + c mod 0x40]
      else if c < 0x110000 then
        Some [0xF0 + c div 0x40000, 0x80 + c div 0x1000 mod 0x40,
              0x80 + c div 0x40 mod 0x40, 0x80 + c mod 0x40]
      else None)"

fun utf8_encode :: "pystr \<Rightarrow> pybytes option" where
  "utf8_encode [] = Some []"
| "utf8_encode (c # cs) =
     (case utf8_encode_char c of
        None \<Rightarrow> None
      | Some bs \<Rightarrow> map_option ((@) bs) (utf8_encode cs))"

subsection \<open>\<^verbatim>\<open>int(s)\<close> on a string\<close>

text \<open>
  \<^verbatim>\<open>int\<close> strips white space, reads an optional sign and then decimal digits, where single
  underscores may stand between digits; anything else is \<^verbatim>\<open>ValueError\<close>, and so is a literal
  of more than 4300 digits (the interpreter's default limit on conversions). Header values
  are decoded as Latin-1, where the only decimal digits are the ASCII ones.
\<close>

definition is_space :: "nat \<Rightarrow> bool" where
  "is_space c \<longleftrightarrow>
     (9 \<le> c \<and> c \<le> 13) \<or> (28 \<le> c \<and> c \<le> 32) \<or> c = 0x85 \<or> c = 0xA0 \<or> c = 0x1680
     \<or> (0x2000 \<le> c \<and> c \<le> 0x200A) \<or> c = 0x2028 \<or> c = 0x2029 \<or> c = 0x202F
     \<or> c = 0x205F \<or> c = 0x3000"

definition is_digit :: "nat \<Rightarrow> bool" where
  "is_digit c \<longleftrightarrow> 0x30 \<le> c \<and> c \<le> 0x39"

definition strip :: "pystr \<Rightarrow> pystr" where
  "strip s = rev (dropWhile is_space (rev (dropWhile is_space s)))"

fun digitpart :: "pystr \<Rightarrow> nat list option" where
  "digitpart [] = None"
| "digitpart [c] = (if is_digit c then Some [c - 0x30] else None)"
| "digitpart (c # d # cs) =
     (if \<not> is_digit c then None
      else if d = 0x5F then map_option ((#) (c - 0x30)) (digitpart cs)
      else map_option ((#) (c - 0x30)) (digitpart (d # cs)))"

definition digits_value :: "nat list \<Rightarrow> int" where
  "digits_value ds = foldl (\<lambda>acc d. acc * 10 + int d) 0 ds"

definition int_max_str_digits :: nat where
  "int_max_str_digits = 4300"

definition py_int :: "pystr \<Rightarrow> py_error + int" where
  "py_int s =
     (let t = strip s;
          neg = (t \<noteq> [] \<and> hd t = 0x2D);
          u = (if t \<noteq> [] \<and> (hd t = 0x2D \<or> hd t = 0x2B) then tl t else t)
      in case digitpart u of
           None \<Rightarrow> Inl ValueError
         | Some ds \<Rightarrow>
             if length ds > int_max_str_digits then Inl ValueError
             else Inr (if neg then - digits_value ds else digits_value ds))"

section \<open>The request as \<^verbatim>\<open>http.server\<close> hands it to a handler\<close>

text \<open>
  \<^verbatim>\<open>BaseHTTPRequestHandler\<close> has read the request line and the header block when it calls
  a \<^verbatim>\<open>do_*\<close> method: \<open>command\<close>, \<open>path\<close>, \<open>request_version\<close> and \<open>headers\<close> are its
  attributes of these names (the headers in arrival order, names and values decoded as
  Latin-1), and \<open>rfile\<close> holds the bytes the client sends after the header block, up to the
  end of the stream. The version is the third word of the request line; for a request
  line of two words, which \<^verbatim>\<open>parse_request\<close> lets through for \<^verbatim>\<open>GET\<close> only, it is the
  default \<^verbatim>\<open>HTTP/0.9\<close>.
\<close>

record http_request =
  command :: pystr
  path :: pystr
  request_version :: pystr
  headers :: "(pystr \<times> pystr) list"
  rfile :: pybytes

text \<open>\<^verbatim>\<open>str.lower\<close> on Latin-1 code points, and \<^verbatim>\<open>Message.get\<close>: the value of the first
  header whose name matches without regard to case.\<close>

definition py_lower :: "nat \<Rightarrow> nat" where
  "py_lower c =
     (if 0x41 \<le> c \<and> c \<le> 0x5A then c + 0x20
      else if 0xC0 \<le> c \<and> c \<le> 0xDE \<and> c \<noteq> 0xD7 then c + 0x20
      else c)"

fun msg_get :: "(pystr \<times> pystr) list \<Rightarrow> pystr \<Rightarrow> pystr option" where
  "msg_get [] name = None"
| "msg_get ((k, v) # hs) name =
     (if map py_lower k = map py_lower name then Some v else msg_get hs name)"

text \<open>A \<^verbatim>\<open>dict\<close> keeps its keys in insertion order; storing under a key that is present
  replaces the value in place. \<^verbatim>\<open>dict(self.headers)\<close> stores, for every header name in
  arrival order, what the message returns for that name.\<close>

fun dict_set :: "('k \<times> 'v) list \<Rightarrow> 'k \<Rightarrow> 'v \<Rightarrow> ('k \<times> 'v) list" where
  "dict_set [] k v = [(k, v)]"
| "dict_set ((k', v') # d) k v =
     (if k' = k then (k, v) # d else (k', v') # dict_set d k v)"

definition headers_dict :: "(pystr \<times> pystr) list \<Rightarrow> (pystr \<times> pystr) list" where
  "headers_dict hs =
     fold (\<lambda>k d. case msg_get hs k of None \<Rightarrow> d | Some v \<Rightarrow> dict_set d k v) (map fst hs) []"

section \<open>JSON text\<close>

text \<open>
  The values the plugin serialises are built from strings, lists, dictionaries with string
  keys, \<^verbatim>\<open>True\<close>/\<^verbatim>\<open>False\<close> and \<^verbatim>\<open>None\<close>; numbers do not occur in them and are left out.
\<close>

datatype json =
    JNull
  | JBool bool
  | JStr pystr
  | JArr "json list"
  | JObj "(pystr \<times> json) list"

text \<open>\<^verbatim>\<open>json.dumps\<close> escapes with \<^verbatim>\<open>ensure_ascii\<close>: the quote, the backslash and five control
  characters have short escapes, printable ASCII stands for itself, every other code point
  is written \<^verbatim>\<open>\uXXXX\<close> in lower-case hexadecimal, as a surrogate pair above U+FFFF.\<close>

definition hex_digit :: "nat \<Rightarrow> nat" where
  "hex_digit d = (if d < 10 then 0x30 + d else 0x57 + d)"

definition u_escape :: "nat \<Rightarrow> pystr" where
  "u_escape n =
     [0x5C, 0x75, hex_digit (n div 0x1000 mod 0x10), hex_digit (n div 0x100 mod 0x10),
      hex_digit (n div 0x10 mod 0x10), hex_digit (n mod 0x10)]"

definition esc_char :: "nat \<Rightarrow> pystr" where
  "esc_char c =
     (if c = 0x5C then [0x5C, 0x5C]
      else if c = 0x22 then [0x5C, 0x22]
      else if c = 0x0A then [0x5C, 0x6E]
      else if c = 0x0D then [0x5C, 0x72]
      else if c = 0x09 then [0x5C, 0x74]
      else if c = 0x0C then [0x5C, 0x66]
      else if c = 0x08 then [0x5C, 0x62]
      else if 0x20 \<le> c \<and> c \<le> 0x7E then [c]
      else if c < 0x10000 then u_escape c
      else u_escape (0xD800 + (c - 0x10000) div 0x400 mod 0x400)
           @ u_escape (0xDC00 + (c - 0x10000) mod 0x400))"

definition dumps_str :: "pystr \<Rightarrow> pystr" where
  "dumps_str s = [0x22] @ concat (map esc_char s) @ [0x22]"

fun join :: "'a list \<Rightarrow> 'a list list \<Rightarrow> 'a list" where
  "join sep [] = []"
| "join sep [x] = x"
| "join sep (x # y # ys) = x @ sep @ join sep (y # ys)"

text \<open>\<^verbatim>\<open>json.dumps(v)\<close> with the default separators \<^verbatim>\<open>', '\<close> and \<^verbatim>\<open>': '\<close>.\<close>

fun json_dumps :: "json \<Rightarrow> pystr" where
  "json_dumps JNull = str ''null''"
| "json_dumps (JBool b) = (if b then str ''true'' else str ''false'')"
| "json_dumps (JStr s) = dumps_str s"
| "json_dumps (JArr vs) = str ''['' @ join (str '', '') (map json_dumps vs) @ str '']''"
| "json_dumps (JObj kvs) =
     str ''{'' @ join (str '', '')
                  (map (\<lambda>kv. dumps_str (fst kv) @ str '': '' @ json_dumps (snd kv)) kvs)
     @ str ''}''"

text \<open>\<^verbatim>\<open>json.dump(v, f, indent=2)\<close>: every item of a non-empty list or dictionary on a line
  of its own, indented by two spaces per nesting level; the item separator is a bare comma.\<close>

definition newline_indent :: "nat \<Rightarrow> pystr" where
  "newline_indent level = 0x0A # replicate (2 * level) 0x20"

fun json_dump_indent :: "nat \<Rightarrow> json \<Rightarrow> pystr" where
  "json_dump_indent level JNull = str ''null''"
| "json_dump_indent level (JBool b) = (if b then str ''true'' else str ''false'')"
| "json_dump_indent level (JStr s) = dumps_str s"
| "json_dump_indent level (JArr vs) =
     (if vs = [] then str ''[]''
      else str ''['' @ newline_indent (Suc level)
           @ join (0x2C # newline_indent (Suc level)) (map (json_dump_indent (Suc level)) vs)
           @ newline_indent level @ str '']'')"
| "json_dump_indent level (JObj kvs) =
     (if kvs = [] then str ''{}''
      else str ''{'' @ newline_indent (Suc level)
           @ join (0x2C # newline_indent (Suc level))
               (map (\<lambda>kv. dumps_str (fst kv) @ str '': ''
                          @ json_dump_indent (Suc level) (snd kv)) kvs)
           @ newline_indent level @ str ''}'')"

subsection \<open>\<^verbatim>\<open>json.loads\<close>\<close>

text \<open>
  The decoder of the \<^verbatim>\<open>json\<close> module for the same fragment (a number literal, \<^verbatim>\<open>NaN\<close> or
  \<^verbatim>\<open>Infinity\<close> makes this model fail where the module returns a number). White space is
  space, tab, line feed and carriage return. \<open>scanstring\<close> reads a string after its opening
  quote, in strict mode: a control character is an error, \<^verbatim>\<open>\uXXXX\<close> takes four hexadecimal
  digits, and a high surrogate followed by an escaped low surrogate is one code point.
\<close>

definition is_ws :: "nat \<Rightarrow> bool" where
  "is_ws c \<longleftrightarrow> c = 0x20 \<or> c = 0x09 \<or> c = 0x0A \<or> c = 0x0D"

definition skip_ws :: "pystr \<Rightarrow> pystr" where
  "skip_ws s = dropWhile is_ws s"

definition hex_val :: "nat \<Rightarrow> nat option" where
  "hex_val c =
     (if 0x30 \<le> c \<and> c \<le> 0x39 then Some (c - 0x30)
      else if 0x61 \<le> c \<and> c \<le> 0x66 then Some (c - 0x57)
      else if 0x41 \<le> c \<and> c \<le> 0x46 then Some (c - 0x37)
      else None)"

fun decode_uXXXX :: "pystr \<Rightarrow> (nat \<times> pystr) option" where
  "decode_uXXXX (a # b # c # d # rest) =
     (case (hex_val a, hex_val b, hex_val c, hex_val d) of
        (Some w, Some x, Some y, Some z) \<Rightarrow> Some (((w * 0x10 + x) * 0x10 + y) * 0x10 + z, rest)
      | _ \<Rightarrow> None)"
| "decode_uXXXX _ = None"

definition backslash :: "nat \<Rightarrow> nat option" where
  "backslash esc =
     (if esc = 0x22 then Some 0x22
      else if esc = 0x5C then Some 0x5C
      else if esc = 0x2F then Some 0x2F
      else if esc = 0x62 then Some 0x08
      else if esc = 0x66 then Some 0x0C
      else if esc = 0x6E then Some 0x0A
      else if esc = 0x72 then Some 0x0D
      else if esc = 0x74 then Some 0x09
      else None)"

definition cons_result :: "'a \<Rightarrow> ('a list \<times> 'b) option \<Rightarrow> ('a list \<times> 'b) option" where
  "cons_result x r = map_option (\<lambda>(xs, rest). (x # xs, rest)) r"

lemma decode_uXXXX_shorter: "decode_uXXXX s = Some (u, r) \<Longrightarrow> length r < length s"
  by (induction s rule: decode_uXXXX.induct) (auto split: option.splits)

function scanstring :: "pystr \<Rightarrow> (pystr \<times> pystr) option" where
  "scanstring [] = None"
| "scanstring (c # cs) =
     (if c = 0x22 then Some ([], cs)
      else if c < 0x20 then None
      else if c = 0x5C then
        (case cs of
           [] \<Rightarrow> None
         | esc # r \<Rightarrow>
             if esc = 0x75 then
               (case decode_uXXXX r of
                  None \<Rightarrow> None
                | Some (uni, r1) \<Rightarrow>
                    if 0xD800 \<le> uni \<and> uni \<le> 0xDBFF \<and> take 2 r1 = [0x5C, 0x75] then
                      (case decode_uXXXX (drop 2 r1) of
                         None \<Rightarrow> None
                       | Some (uni2, r2) \<Rightarrow>
                           if 0xDC00 \<le> uni2 \<and> uni2 \<le> 0xDFFF
                           then cons_result
                                  (0x10000 + ((uni - 0xD800) * 0x400 + (uni2 - 0xDC00)))
                                  (scanstring r2)
                           else cons_result uni (scanstring r1))
                    else cons_result uni (scanstring r1))
             else
               (case backslash esc of
                  None \<Rightarrow> None
                | Some ch \<Rightarrow> cons_result ch (scanstring r)))
      else cons_result c (scanstring cs))"
  by pat_completeness auto
termination
proof (relation "measure length")
  show "wf (measure length)" by simp
next
  fix c cs esc r x2 uni r1 x2a uni2 r2
  assume "cs = esc # r" "decode_uXXXX r = Some x2" "(uni, r1) = x2"
    "decode_uXXXX (drop 2 r1) = Some x2a" "(uni2, r2) = x2a"
  then have "length r1 < length r" "length r2 < length (drop 2 r1)"
    by (auto dest: decode_uXXXX_shorter)
  then show "(r2, c # cs) \<in> measure length"
    using \<open>cs = esc # r\<close> by simp
qed (auto dest: decode_uXXXX_shorter)

text \<open>
  The value scanner follows \<^verbatim>\<open>scan_once\<close>, \<^verbatim>\<open>JSONArray\<close> and \<^verbatim>\<open>JSONObject\<close> of the module.
  \<open>scan_items\<close> starts at the first character of an item, \<open>scan_members\<close> after the opening
  quote of a key; the pairs of an object are made a dictionary by \<^verbatim>\<open>dict(pairs)\<close>, so the
  last value of a repeated key stays. The first argument bounds the depth of the calls;
  \<open>json_loads\<close> starts with more than the length of the text, and \<open>scan_once_dump\<close> below
  shows that this is enough for every text \<^verbatim>\<open>json.dump\<close> writes.
\<close>

definition expect :: "nat \<Rightarrow> pystr \<Rightarrow> pystr option" where
  "expect c s = (case s of [] \<Rightarrow> None | x # r \<Rightarrow> if x = c then Some r else None)"

definition dict_of_pairs :: "('k \<times> 'v) list \<Rightarrow> ('k \<times> 'v) list" where
  "dict_of_pairs kvs = fold (\<lambda>kv d. dict_set d (fst kv) (snd kv)) kvs []"

fun scan_once :: "nat \<Rightarrow> pystr \<Rightarrow> (json \<times> pystr) option"
  and scan_items :: "nat \<Rightarrow> pystr \<Rightarrow> (json list \<times> pystr) option"
  and scan_members :: "nat \<Rightarrow> pystr \<Rightarrow> ((pystr \<times> json) list \<times> pystr) option"
where
  "scan_once 0 s = None"
| "scan_once (Suc n) s =
     (case s of
        [] \<Rightarrow> None
      | c # cs \<Rightarrow>
          if c = 0x22 then map_option (\<lambda>(t, r). (JStr t, r)) (scanstring cs)
          else if c = 0x7B then
            (case skip_ws cs of
               [] \<Rightarrow> None
             | x # r \<Rightarrow>
                 if x = 0x7D then Some (JObj [], r)
                 else if x = 0x22
                 then map_option (\<lambda>(kvs, r'). (JObj (dict_of_pairs kvs), r')) (scan_members n r)
                 else None)
          else if c = 0x5B then
            (case skip_ws cs of
               [] \<Rightarrow> None
             | x # r \<Rightarrow>
                 if x = 0x5D then Some (JArr [], r)
                 else map_option (\<lambda>(vs, r'). (JArr vs, r')) (scan_items n (x # r)))
          else if take 4 s = str ''null'' then Some (JNull, drop 4 s)
          else if take 4 s = str ''true'' then Some (JBool True, drop 4 s)
          else if take 5 s = str ''false'' then Some (JBool False, drop 5 s)
          else None)"
| "scan_items 0 s = None"
| "scan_items (Suc n) s =
     (case scan_once n s of
        None \<Rightarrow> None
      | Some (v, r) \<Rightarrow>
          (case skip_ws r of
             [] \<Rightarrow> None
           | x # r' \<Rightarrow>
               if x = 0x5D then Some ([v], r')
               else if x = 0x2C then cons_result v (scan_items n (skip_ws r'))
               else None))"
| "scan_members 0 s = None"
| "scan_members (Suc n) s =
     (case scanstring s of
        None \<Rightarrow> None
      | Some (key, r) \<Rightarrow>
          (case expect 0x3A (skip_ws r) of
             None \<Rightarrow> None
           | Some r1 \<Rightarrow>
               (case scan_once n (skip_ws r1) of
                  None \<Rightarrow> None
                | Some (v, r2) \<Rightarrow>
                    (case skip_ws r2 of
                       [] \<Rightarrow> None
                     | x # r3 \<Rightarrow>
                         if x = 0x7D then Some ([(key, v)], r3)
                         else if x = 0x2C then
                           (case expect 0x22 (skip_ws r3) of
                              None \<Rightarrow> None
                            | Some r4 \<Rightarrow> cons_result (key, v) (scan_members n r4))
                         else None))))"

definition json_loads :: "pystr \<Rightarrow> json option" where
  "json_loads s =
     (case scan_once (Suc (length s)) (skip_ws s) of
        None \<Rightarrow> None
      | Some (v, r) \<Rightarrow> if skip_ws r = [] then Some v else None)"

section \<open>The capture server\<close>

text \<open>
  One entry of \<^verbatim>\<open>REQUESTS_LOG\<close> is the dictionary \<^verbatim>\<open>request_data\<close> built by
  \<^verbatim>\<open>WebhookHandler._handle_request\<close>: five string keys, in this order (\<open>rmethod\<close>, \<open>rpath\<close>
  and \<open>rheaders\<close> are the keys \<^verbatim>\<open>"method"\<close>, \<^verbatim>\<open>"path"\<close> and \<^verbatim>\<open>"headers"\<close>). \<open>to_json\<close> is that
  dictionary as the value \<^verbatim>\<open>json.dump\<close> sees.
\<close>

record request_data =
  timestamp :: pystr
  rmethod :: pystr
  rpath :: pystr
  rheaders :: "(pystr \<times> pystr) list"
  body :: pystr

definition to_json :: "request_data \<Rightarrow> json" where
  "to_json r =
     JObj [(str ''timestamp'', JStr (timestamp r)),
           (str ''method'', JStr (rmethod r)),
           (str ''path'', JStr (rpath r)),
           (str ''headers'', JObj (map (\<lambda>kv. (fst kv, JStr (snd kv))) (rheaders r))),
           (str ''body'', JStr (body r))]"

text \<open>
  What a handler meets in its surroundings: \<open>now\<close> is \<^verbatim>\<open>datetime.now().isoformat()\<close>,
  \<open>version_string\<close> and \<open>date_time_string\<close> are the values \<^verbatim>\<open>send_response\<close> puts into the
  \<^verbatim>\<open>Server\<close> and \<^verbatim>\<open>Date\<close> headers, and \<open>allocatable\<close> is the largest number of bytes for
  which \<^verbatim>\<open>rfile.read\<close> gets its buffer from the allocator.

  The console (\<^verbatim>\<open>rich\<close>) is a collaborator outside the repository, and it reads a string
  it is given as markup: it raises \<^verbatim>\<open>MarkupError\<close> for a closing tag that matches no open
  one, such as \<^verbatim>\<open>[/x]\<close>. Two of the strings the handler prints hold text of the request:
  the trace (lines 49 and 50) holds the path, and the fallback of the preview (line 59)
  holds the first 200 characters of the body. \<open>trace_line\<close> is what \<^verbatim>\<open>console.print\<close> does
  with the trace; \<open>preview\<close> is what lines 53 to 59 do with a body that is not empty. In
  both \<open>None\<close> stands for returning and \<open>Some err\<close> for raising \<open>err\<close>. The preview raises
  only from its \<^verbatim>\<open>except\<close> branch: whatever lines 54 to 57 raise (\<^verbatim>\<open>json.loads\<close> on a body
  that is no JSON text, first of all) is caught by the bare \<^verbatim>\<open>except\<close>, but the
  \<^verbatim>\<open>console.print\<close> of line 59 stands in that \<^verbatim>\<open>except\<close> branch itself, so what it raises
  leaves the handler.
\<close>

record handler_env =
  now :: pystr
  version_string :: pystr
  date_time_string :: pystr
  allocatable :: int
  trace_line :: "py_error option"
  preview :: "py_error option"

text \<open>
  What one call of a handler leaves on the connection: a complete response (status,
  headers, body); a body with no status line and no header before it, the answer to a
  request of version \<^verbatim>\<open>HTTP/0.9\<close>; a status line and headers only, because an exception was
  raised after \<^verbatim>\<open>end_headers\<close>; the error page of \<^verbatim>\<open>send_error\<close>; or nothing, because an
  exception was raised before anything was written. The client is taken to keep the
  connection open until the handler returns, so that a write to it does not fail.
\<close>

datatype outcome =
    Sent int "(pystr \<times> pystr) list" pybytes
  | BodyOnly pybytes
  | HeadOnly int "(pystr \<times> pystr) list" py_error
  | SendError int
  | Raised py_error

text \<open>
  The methods of \<^verbatim>\<open>BaseHTTPRequestHandler\<close> with which both handlers write their response
  (lines 62 to 64 and 67, lines 180 to 183). \<^verbatim>\<open>send_response\<close> puts the status line and the
  \<^verbatim>\<open>Server\<close> and \<^verbatim>\<open>Date\<close> headers into the header buffer, \<^verbatim>\<open>send_header\<close> adds a header, and
  \<^verbatim>\<open>end_headers\<close> writes the buffer; each of them does nothing for a request of version
  \<^verbatim>\<open>HTTP/0.9\<close>. The head of a response is \<open>None\<close> then, and the status with the headers
  otherwise. \<open>wfile_write\<close> is the statement that follows \<^verbatim>\<open>end_headers\<close>: the text is encoded,
  which can raise when the head is already written, and the bytes are written.
\<close>

type_synonym head = "(int \<times> (pystr \<times> pystr) list) option"

definition send_response :: "http_request \<Rightarrow> handler_env \<Rightarrow> int \<Rightarrow> head" where
  "send_response rq e code =
     (if request_version rq = str ''HTTP/0.9'' then None
      else Some (code, [(str ''Server'', version_string e), (str ''Date'', date_time_string e)]))"

definition send_header :: "pystr \<Rightarrow> pystr \<Rightarrow> head \<Rightarrow> head" where
  "send_header keyword v h = map_option (\<lambda>(code, hs). (code, hs @ [(keyword, v)])) h"

definition wfile_write :: "head \<Rightarrow> pybytes option \<Rightarrow> outcome" where
  "wfile_write h encoded =
     (case encoded of
        None \<Rightarrow>
          (case h of
             None \<Rightarrow> Raised UnicodeEncodeError
           | Some (code, hs) \<Rightarrow> HeadOnly code hs UnicodeEncodeError)
      | Some bs \<Rightarrow>
          (case h of
             None \<Rightarrow> BodyOnly bs
           | Some (code, hs) \<Rightarrow> Sent code hs bs))"

text \<open>
  \<^verbatim>\<open>_handle_request(self, method)\<close>, lines 33 to 67, step by step. \<open>read_body\<close> is lines 35
  and 36: the header lookup with its default \<open>0\<close>, the conversion by \<^verbatim>\<open>int\<close>, and for a
  positive length the read from \<open>rfile\<close> and its decoding. \<^verbatim>\<open>rfile.read(n)\<close> takes \<open>n\<close> as a C
  index, so it raises \<^verbatim>\<open>OverflowError\<close> for a length above \<^verbatim>\<open>sys.maxsize\<close> (\<open>2^63 - 1\<close> on a
  64-bit build); it asks for a buffer of \<open>n\<close> bytes and raises \<^verbatim>\<open>MemoryError\<close> when the
  allocator has none of that size; otherwise it returns all bytes up to that length that
  arrive before the end of the stream.
\<close>

definition sys_maxsize :: int where
  "sys_maxsize = 2 ^ 63 - 1"

definition read_body :: "handler_env \<Rightarrow> http_request \<Rightarrow> py_error + pystr" where
  "read_body e rq =
     (case (case msg_get (headers rq) (str ''Content-Length'') of
              None \<Rightarrow> Inr 0
            | Some v \<Rightarrow> py_int v) of
        Inl err \<Rightarrow> Inl err
      | Inr content_length \<Rightarrow>
          if content_length > 0
          then (if content_length > sys_maxsize then Inl OverflowError
                else if content_length > allocatable e then Inl MemoryError
                else (case utf8_decode (take (nat content_length) (rfile rq)) of
                        None \<Rightarrow> Inl UnicodeDecodeError
                      | Some b \<Rightarrow> Inr b))
          else Inr [])"

text \<open>
  Lines 48 to 59, what is printed between the append and the response: the trace always,
  the preview under \<^verbatim>\<open>if body:\<close>. \<open>None\<close> when both returned, the exception otherwise.
\<close>

definition console_output :: "handler_env \<Rightarrow> pystr \<Rightarrow> py_error option" where
  "console_output e b =
     (case trace_line e of
        Some err \<Rightarrow> Some err
      | None \<Rightarrow> if b \<noteq> [] then preview e else None)"

text \<open>Lines 61 to 67: the response written after the record is in the log.\<close>

definition acknowledge :: "handler_env \<Rightarrow> http_request \<Rightarrow> request_data \<Rightarrow> outcome" where
  "acknowledge e rq request_data =
     (let h = send_header (str ''Content-type'') (str ''application/json'') (send_response rq e 200);
          response = JObj [(str ''status'', JStr (str ''received'')),
                           (str ''timestamp'', JStr (timestamp request_data))]
      in wfile_write h (utf8_encode (json_dumps response)))"

text \<open>
  The whole handler, on the log it appends to: the body is read, the record is appended,
  the trace and the preview are printed and the response is written. An exception leaves
  the handler where it is raised: the steps after it are not run, and what was appended
  before it stays in the log.
\<close>

definition handle_request ::
  "handler_env \<Rightarrow> pystr \<Rightarrow> http_request \<Rightarrow> request_data list \<Rightarrow> request_data list \<times> outcome"
where
  "handle_request e meth rq rlog =
     (case read_body e rq of
        Inl err \<Rightarrow> (rlog, Raised err)
      | Inr b \<Rightarrow>
          (let request_data =
                 \<lparr>timestamp = now e, rmethod = meth, rpath = path rq,
                  rheaders = headers_dict (headers rq), body = b\<rparr>
           in (rlog @ [request_data],
               case console_output e b of
                 Some err \<Rightarrow> Raised err
               | None \<Rightarrow> acknowledge e rq request_data)))"

text \<open>
  \<^verbatim>\<open>BaseHTTPRequestHandler.handle_one_request\<close> calls the method \<^verbatim>\<open>do_\<close> + command when the
  handler class has one and answers \<^verbatim>\<open>send_error(501)\<close> otherwise. \<^verbatim>\<open>WebhookHandler\<close> defines
  \<^verbatim>\<open>do_GET\<close>, \<^verbatim>\<open>do_POST\<close>, \<^verbatim>\<open>do_PUT\<close>, \<^verbatim>\<open>do_DELETE\<close> and \<^verbatim>\<open>do_PATCH\<close> (lines 69 to 82).
\<close>

definition WebhookHandler_methods :: "pystr list" where
  "WebhookHandler_methods = [str ''GET'', str ''POST'', str ''PUT'', str ''DELETE'', str ''PATCH'']"

definition WebhookHandler ::
  "handler_env \<Rightarrow> http_request \<Rightarrow> request_data list \<Rightarrow> request_data list \<times> outcome"
where
  "WebhookHandler e rq rlog =
     (if command rq = str ''GET'' then handle_request e (str ''GET'') rq rlog
      else if command rq = str ''POST'' then handle_request e (str ''POST'') rq rlog
      else if command rq = str ''PUT'' then handle_request e (str ''PUT'') rq rlog
      else if command rq = str ''DELETE'' then handle_request e (str ''DELETE'') rq rlog
      else if command rq = str ''PATCH'' then handle_request e (str ''PATCH'') rq rlog
      else (rlog, SendError 501))"

text \<open>
  Lines 102 and 103: a \<^verbatim>\<open>socketserver.TCPServer\<close> with \<^verbatim>\<open>WebhookHandler\<close> as its handler
  class, and its \<^verbatim>\<open>serve_forever\<close>. The class is the standard library's, not code of this repository;
  \<open>serve\<close> follows the library's source: \<^verbatim>\<open>serve_forever\<close> accepts a connection, runs the
  handler class on it to completion (\<^verbatim>\<open>process_request\<close> calls \<^verbatim>\<open>finish_request\<close> on the
  thread of the loop), closes it and then accepts the next. An exception a handler raises
  is caught by the server (\<^verbatim>\<open>handle_error\<close>), the connection is closed and the loop goes on.
  \<open>serve\<close> returns the log and the outcome of every connection, up to the operator's
  interrupt.
\<close>

fun serve ::
  "(handler_env \<times> http_request) list \<Rightarrow> request_data list \<Rightarrow> request_data list \<times> outcome list"
where
  "serve [] rlog = (rlog, [])"
| "serve ((e, rq) # conns) rlog =
     (let (log1, out) = WebhookHandler e rq rlog;
          (log2, outs) = serve conns log1
      in (log2, out # outs))"

text \<open>
  \<^verbatim>\<open>start_listener(port, save)\<close>, lines 94 to 110. \<^verbatim>\<open>REQUESTS_LOG\<close> is a module-level list: the
  state of the process, not of the call. The files are a map from path to text, and every
  path can be written. \<open>save_requests\<close> is the save step, lines 107 to 110: on the
  interrupt the log is written when \<^verbatim>\<open>save\<close> is truthy (given and not empty) and the log is
  not empty.
\<close>

type_synonym files = "pystr \<rightharpoonup> pystr"

definition save_requests :: "pystr option \<Rightarrow> request_data list \<Rightarrow> files \<Rightarrow> files" where
  "save_requests save REQUESTS_LOG fs =
     (case save of
        None \<Rightarrow> fs
      | Some p \<Rightarrow>
          if p \<noteq> [] \<and> REQUESTS_LOG \<noteq> []
          then fs(p \<mapsto> json_dump_indent 0 (JArr (map to_json REQUESTS_LOG)))
          else fs)"

definition start_listener ::
  "pystr option \<Rightarrow> (handler_env \<times> http_request) list \<Rightarrow> request_data list \<times> files
   \<Rightarrow> (request_data list \<times> files) \<times> outcome list"
where
  "start_listener save conns st =
     (let (REQUESTS_LOG, fs) = st;
          (log', outs) = serve conns REQUESTS_LOG
      in ((log', save_requests save log' fs), outs))"

text \<open>
  \<^verbatim>\<open>inspect_requests(file_path)\<close>, lines 210 and 211: the file is opened and read by
  \<^verbatim>\<open>json.load\<close>. Both steps stand in a \<^verbatim>\<open>try\<close> whose \<^verbatim>\<open>except\<close> prints the error, so the command
  shows no table when either fails.
\<close>

definition load :: "files \<Rightarrow> pystr \<Rightarrow> py_error + json" where
  "load fs file_path =
     (case fs file_path of
        None \<Rightarrow> Inl FileNotFoundError
      | Some content \<Rightarrow>
          (case json_loads content of
             None \<Rightarrow> Inl JSONDecodeError
           | Some requests_data \<Rightarrow> Inr requests_data))"

section \<open>The mock server\<close>

text \<open>What the code does besides answering: \<^verbatim>\<open>time.sleep\<close>, a call of the HTTP client
  library (verb, and whether a JSON body is passed), and the lines of the sender's report.
  A delay is a Python float that the code only compares with zero and hands to
  \<^verbatim>\<open>time.sleep\<close>; it is a real number here, which leaves out the floats \<^verbatim>\<open>inf\<close> and
  \<^verbatim>\<open>nan\<close>.\<close>

datatype effect =
    Sleep real
  | HttpCall pystr bool
  | PrintStatus int
  | PrintError py_error
  | PrintSent int

text \<open>
  \<^verbatim>\<open>time.sleep(secs)\<close> of the interpreter turns its argument into a signed 64-bit count of
  nanoseconds, rounding away from zero, and raises \<^verbatim>\<open>OverflowError\<close> when the count does not
  fit; it raises \<^verbatim>\<open>ValueError\<close> for a negative argument. \<open>None\<close> stands for having slept.
\<close>

definition time_sleep :: "real \<Rightarrow> py_error option" where
  "time_sleep secs =
     (if secs * 1000000000 > 2 ^ 63 - 1 \<or> secs * 1000000000 < - (2 ^ 63) then Some OverflowError
      else if secs < 0 then Some ValueError
      else None)"

record mock_config =
  response :: pystr
  status :: int
  delay :: real

text \<open>\<^verbatim>\<open>MockHandler._respond\<close>, lines 176 to 185, and the class's four \<^verbatim>\<open>do_*\<close> methods,
  lines 187 to 190. The sleep comes first: when it raises, nothing is written. The trace
  of line 185 is printed after the response is written and cannot change it.\<close>

definition respond :: "mock_config \<Rightarrow> handler_env \<Rightarrow> http_request \<Rightarrow> effect list \<times> outcome" where
  "respond cfg e rq =
     (case (if delay cfg > 0 then time_sleep (delay cfg) else None) of
        Some err \<Rightarrow> ([], Raised err)
      | None \<Rightarrow>
          ((if delay cfg > 0 then [Sleep (delay cfg)] else []),
           wfile_write
             (send_header (str ''Content-type'') (str ''application/json'')
                (send_response rq e (status cfg)))
             (utf8_encode (response cfg))))"

definition MockHandler_methods :: "pystr list" where
  "MockHandler_methods = [str ''GET'', str ''POST'', str ''PUT'', str ''DELETE'']"

definition MockHandler :: "mock_config \<Rightarrow> handler_env \<Rightarrow> http_request \<Rightarrow> effect list \<times> outcome" where
  "MockHandler cfg e rq =
     (if command rq = str ''GET'' then respond cfg e rq
      else if command rq = str ''POST'' then respond cfg e rq
      else if command rq = str ''PUT'' then respond cfg e rq
      else if command rq = str ''DELETE'' then respond cfg e rq
      else ([], SendError 501))"

text \<open>
  \<^verbatim>\<open>mock_server\<close>, lines 198 to 200: the same \<^verbatim>\<open>TCPServer\<close> loop around \<^verbatim>\<open>MockHandler\<close>, one
  connection after the other.
\<close>

definition mock_server ::
  "mock_config \<Rightarrow> (handler_env \<times> http_request) list \<Rightarrow> (effect list \<times> outcome) list" where
  "mock_server cfg conns = map (\<lambda>(e, rq). MockHandler cfg e rq) conns"

subsection \<open>The two servers on a clock\<close>

text \<open>
  The same loop of \<^verbatim>\<open>socketserver.TCPServer\<close> (library code, as above), now with a clock.
  A connection arrives at some time; \<open>handler c s\<close> is what the handler class does with the
  connection \<open>c\<close> in the state \<open>s\<close>: the state it leaves, its outcome and the time it takes.
  The loop is free at time \<open>t\<close>; it starts the handler of the first connection when that
  connection has arrived, runs it to its end and is free again when the handler has
  finished. The result gives, for every connection, when its handler started, when it
  finished, and its outcome.
\<close>

fun serve_forever ::
  "('c \<Rightarrow> 's \<Rightarrow> 's \<times> 'o \<times> real) \<Rightarrow> real \<Rightarrow> (real \<times> 'c) list \<Rightarrow> 's
   \<Rightarrow> 's \<times> (real \<times> real \<times> 'o) list"
where
  "serve_forever handler t [] s = (s, [])"
| "serve_forever handler t ((arrival, c) # conns) s =
     (let started = max t arrival;
          (s1, out, took) = handler c s;
          finished = started + took;
          (s2, rest) = serve_forever handler finished conns s1
      in (s2, (started, finished, out) # rest))"

text \<open>
  Lines 102 and 103 on the clock: the loop around \<^verbatim>\<open>WebhookHandler\<close>, whose state is
  \<^verbatim>\<open>REQUESTS_LOG\<close>. Nothing in the handler waits by itself; the time it takes on a
  connection is the time the client takes to send what the handler reads, and it comes
  with the connection.
\<close>

definition listen_on_clock ::
  "real \<Rightarrow> (real \<times> real \<times> handler_env \<times> http_request) list \<Rightarrow> request_data list
   \<Rightarrow> request_data list \<times> (real \<times> real \<times> outcome) list"
where
  "listen_on_clock t conns REQUESTS_LOG =
     serve_forever
       (\<lambda>(took, e, rq) rlog. case WebhookHandler e rq rlog of (rlog', out) \<Rightarrow> (rlog', out, took))
       t conns REQUESTS_LOG"

text \<open>
  Lines 199 and 200 on the clock: the loop around \<^verbatim>\<open>MockHandler\<close>, which has no state. A
  handler of the mock server takes the time it sleeps.
\<close>

definition sleep_time :: "effect list \<Rightarrow> real" where
  "sleep_time fx = sum_list (map (\<lambda>f. case f of Sleep d \<Rightarrow> d | _ \<Rightarrow> 0) fx)"

definition mock_on_clock ::
  "mock_config \<Rightarrow> real \<Rightarrow> (real \<times> handler_env \<times> http_request) list
   \<Rightarrow> (real \<times> real \<times> effect list \<times> outcome) list"
where
  "mock_on_clock cfg t conns =
     snd (serve_forever
            (\<lambda>(e, rq) u. case MockHandler cfg e rq of (fx, out) \<Rightarrow> (u, (fx, out), sleep_time fx))
            t conns ())"

section \<open>The sender\<close>

text \<open>
  \<^verbatim>\<open>str.upper\<close> on Latin-1 code points. The loop of \<^verbatim>\<open>send_webhook\<close>, lines 134 to 161:
  \<open>net i\<close> is what the HTTP client library does on the call of iteration \<open>i\<close>, a response
  with its status code or an exception. \<open>console_print err\<close> is what \<^verbatim>\<open>console.print\<close> does
  with the error line of the exception \<open>err\<close> (line 158), whose text the console reads as
  markup: \<open>None\<close> when it returns, the exception it raises otherwise. The status line and
  the closing line hold numbers and fixed words only and are taken to be printed.
\<close>

definition py_upper :: "nat \<Rightarrow> pystr" where
  "py_upper c =
     (if 0x61 \<le> c \<and> c \<le> 0x7A then [c - 0x20]
      else if c = 0xB5 then [0x39C]
      else if c = 0xDF then [0x53, 0x53]
      else if c = 0xFF then [0x178]
      else if 0xE0 \<le> c \<and> c \<le> 0xFE \<and> c \<noteq> 0xF7 then [c - 0x20]
      else [c])"

datatype http_result = Resp int | Raises py_error

text \<open>
  The \<^verbatim>\<open>except Exception\<close> clause, lines 157 and 158. It stands outside the \<^verbatim>\<open>try\<close>: when its
  own \<^verbatim>\<open>console.print\<close> raises, the exception leaves the loop and \<^verbatim>\<open>send_webhook\<close>. The
  second component is that exception, \<open>None\<close> when the iteration came to its end.
\<close>

definition except_clause ::
  "(py_error \<Rightarrow> py_error option) \<Rightarrow> py_error \<Rightarrow> effect list \<times> py_error option" where
  "except_clause console_print err =
     (case console_print err of
        None \<Rightarrow> ([PrintError err], None)
      | Some raised \<Rightarrow> ([], Some raised))"

text \<open>
  One iteration, lines 135 to 158. The call, the status line and the sleep stand in the
  \<^verbatim>\<open>try\<close> in this order, so an exception of the call skips the other two, and an exception
  of \<^verbatim>\<open>time.sleep\<close> is caught like one of the call and reported by the \<^verbatim>\<open>except\<close> clause.
\<close>

definition attempt ::
  "pystr \<Rightarrow> int \<Rightarrow> real \<Rightarrow> (nat \<Rightarrow> http_result) \<Rightarrow> (py_error \<Rightarrow> py_error option) \<Rightarrow> nat
   \<Rightarrow> effect list \<times> py_error option"
where
  "attempt meth repeat d net console_print i =
     (let verb = concat (map py_upper meth);
          call = HttpCall verb (verb \<noteq> str ''GET'' \<and> verb \<noteq> str ''DELETE'')
      in case net i of
           Raises err \<Rightarrow>
             (case except_clause console_print err of (fx, r) \<Rightarrow> (call # fx, r))
         | Resp code \<Rightarrow>
             if repeat > 1 \<and> int i < repeat - 1 \<and> d > 0
             then (case time_sleep d of
                     None \<Rightarrow> ([call, PrintStatus code, Sleep d], None)
                   | Some err \<Rightarrow>
                       (case except_clause console_print err of
                          (fx, r) \<Rightarrow> (call # PrintStatus code # fx, r)))
             else ([call, PrintStatus code], None))"

text \<open>The \<^verbatim>\<open>for\<close> statement of line 134: the iterations in order, up to the first that an
  exception leaves.\<close>

fun for_loop :: "(nat \<Rightarrow> effect list \<times> py_error option) \<Rightarrow> nat list \<Rightarrow> effect list \<times> py_error option" where
  "for_loop f [] = ([], None)"
| "for_loop f (i # ks) =
     (case f i of
        (fx, Some err) \<Rightarrow> (fx, Some err)
      | (fx, None) \<Rightarrow> (case for_loop f ks of (fx', r) \<Rightarrow> (fx @ fx', r)))"

text \<open>Lines 134 to 161: the loop, and the closing line when it came to its end.\<close>

definition send_loop ::
  "pystr \<Rightarrow> int \<Rightarrow> real \<Rightarrow> (nat \<Rightarrow> http_result) \<Rightarrow> (py_error \<Rightarrow> py_error option)
   \<Rightarrow> effect list \<times> py_error option"
where
  "send_loop meth repeat d net console_print =
     (case for_loop (attempt meth repeat d net console_print) [0..<nat repeat] of
        (fx, Some err) \<Rightarrow> (fx, Some err)
      | (fx, None) \<Rightarrow> (fx @ (if repeat > 1 then [PrintSent repeat] else []), None))"




definition is_sleep :: "effect \<Rightarrow> bool" where
  "is_sleep f = (case f of Sleep _ \<Rightarrow> True | _ \<Rightarrow> False)"

section \<open>Concrete inputs\<close>

definition env0 :: handler_env where
  "env0 = \<lparr>now = str ''2024-05-01T12:00:00.000001'',
           version_string = str ''BaseHTTP/0.6 Python/3.12.0'',
           date_time_string = str ''Wed, 01 May 2024 12:00:00 GMT'',
           allocatable = 1073741824,
           trace_line = None,
           preview = None\<rparr>"

definition post_order :: http_request where
  "post_order =
     \<lparr>command = str ''POST'', path = str ''/hooks/test'', request_version = str ''HTTP/1.1'',
      headers = [(str ''Host'', str ''localhost:8080''), (str ''Content-Length'', str ''15'')],
      rfile = str ''{\"order_id\":42}''\<rparr>"

definition get_request :: http_request where
  "get_request =
     \<lparr>command = str ''GET'', path = str ''/'', request_version = str ''HTTP/1.1'',
      headers = [], rfile = []\<rparr>"

definition options_request :: http_request where
  "options_request =
     \<lparr>command = str ''OPTIONS'', path = str ''/hooks/test'', request_version = str ''HTTP/1.1'',
      headers = [(str ''Host'', str ''localhost:8080'')], rfile = []\<rparr>"

definition bad_length_request :: http_request where
  "bad_length_request =
     \<lparr>command = str ''POST'', path = str ''/hooks/test'', request_version = str ''HTTP/1.1'',
      headers = [(str ''Host'', str ''localhost:8080''), (str ''Content-Length'', str ''abc'')],
      rfile = str ''{\"order_id\":42}''\<rparr>"



definition versionless_get :: http_request where
  "versionless_get =
     \<lparr>command = str ''GET'', path = str ''/'', request_version = str ''HTTP/0.9'',
      headers = [], rfile = []\<rparr>"

definition tag_path_request :: http_request where
  "tag_path_request =
     \<lparr>command = str ''GET'', path = str ''/[/x]'', request_version = str ''HTTP/1.1'',
      headers = [], rfile = []\<rparr>"

definition env_markup :: handler_env where
  "env_markup = env0\<lparr>trace_line := Some MarkupError\<rparr>"

text \<open>A request whose body is the four characters \<^verbatim>\<open>[/x]\<close>, no JSON text, with the console
  raising on the fallback of its preview.\<close>

definition tag_body_request :: http_request where
  "tag_body_request =
     \<lparr>command = str ''POST'', path = str ''/hooks/test'', request_version = str ''HTTP/1.1'',
      headers = [(str ''Content-Length'', str ''4'')], rfile = str ''[/x]''\<rparr>"

definition env_preview :: handler_env where
  "env_preview = env0\<lparr>preview := Some MarkupError\<rparr>"

definition teapot :: mock_config where
  "teapot = \<lparr>response = str ''{\"teapot\":true}'', status = 418, delay = 5\<rparr>"

definition unreachable :: "nat \<Rightarrow> http_result" where
  "unreachable i = Raises ConnectionError"

definition printed :: "py_error \<Rightarrow> py_error option" where
  "printed err = None"

section \<open>Strings and values that survive the round trip\<close>

text \<open>
  A code point is a scalar value when it is no surrogate and at most U+10FFFF. \<open>wf_json\<close>
  holds of a value whose strings consist of scalar values and whose dictionaries have
  distinct keys, as every \<^verbatim>\<open>dict\<close> has; \<open>wf_record\<close> says the same of a log entry.
\<close>

definition scalar :: "nat \<Rightarrow> bool" where
  "scalar c \<longleftrightarrow> c < 0xD800 \<or> (0xE000 \<le> c \<and> c < 0x110000)"

fun wf_json :: "json \<Rightarrow> bool" where
  "wf_json JNull = True"
| "wf_json (JBool b) = True"
| "wf_json (JStr s) = list_all scalar s"
| "wf_json (JArr vs) = list_all wf_json vs"
| "wf_json (JObj kvs) =
     (distinct (map fst kvs) \<and> list_all (\<lambda>kv. list_all scalar (fst kv) \<and> wf_json (snd kv)) kvs)"

definition wf_record :: "request_data \<Rightarrow> bool" where
  "wf_record r \<longleftrightarrow>
     list_all scalar (timestamp r) \<and> list_all scalar (rmethod r) \<and> list_all scalar (rpath r)
     \<and> distinct (map fst (rheaders r))
     \<and> list_all (\<lambda>kv. list_all scalar (fst kv) \<and> list_all scalar (snd kv)) (rheaders r)
     \<and> list_all scalar (body r)"

text \<open>
  What \<^verbatim>\<open>http.server\<close> hands to a handler is decoded as Latin-1, and the timestamp is
  printed by \<^verbatim>\<open>isoformat\<close>: \<open>wf_conn\<close> holds of a connection whose path and headers have code
  points below 256 only and whose timestamp has scalar values only.
\<close>

definition latin1 :: "pystr \<Rightarrow> bool" where
  "latin1 s = list_all (\<lambda>c. c < 0x100) s"

definition wf_conn :: "handler_env \<times> http_request \<Rightarrow> bool" where
  "wf_conn c \<longleftrightarrow>
     list_all scalar (now (fst c)) \<and> latin1 (path (snd c))
     \<and> list_all (\<lambda>kv. latin1 (fst kv) \<and> latin1 (snd kv)) (headers (snd c))"

text \<open>The characters a serialised value can start with.\<close>

definition value_start :: "nat \<Rightarrow> bool" where
  "value_start c \<longleftrightarrow> c = 0x22 \<or> c = 0x5B \<or> c = 0x7B \<or> c = 0x6E \<or> c = 0x74 \<or> c = 0x66"

section \<open>What \<^verbatim>\<open>json.dumps\<close> writes is ASCII\<close>

lemma hex_digit_ascii: "d < 16 \<Longrightarrow> hex_digit d < 0x80"
  by (simp add: hex_digit_def)

lemma u_escape_ascii: "c \<in> set (u_escape n) \<Longrightarrow> c < 0x80"
proof -
  have "hex_digit (k mod 0x10) < 0x80" for k
    by (rule hex_digit_ascii) simp
  then show "c \<in> set (u_escape n) \<Longrightarrow> c < 0x80"
    by (auto simp: u_escape_def)
qed

lemma esc_char_ascii: "c \<in> set (esc_char n) \<Longrightarrow> c < 0x80"
  by (auto simp: esc_char_def dest: u_escape_ascii split: if_splits)

lemma dumps_str_ascii: "c \<in> set (dumps_str s) \<Longrightarrow> c < 0x80"
  by (auto simp: dumps_str_def dest: esc_char_ascii)

lemma join_all:
  "\<forall>c \<in> set sep. P c \<Longrightarrow> \<forall>x \<in> set xs. \<forall>c \<in> set x. P c \<Longrightarrow> \<forall>c \<in> set (join sep xs). P c"
  by (induction sep xs rule: join.induct) auto

lemma json_dumps_all_ascii: "\<forall>c \<in> set (json_dumps v). c < 0x80"
proof (induction v)
  case (JArr vs)
  have "\<forall>c \<in> set (join (str '', '') (map json_dumps vs)). c < 0x80"
    by (rule join_all) (use JArr.IH in auto)
  then show ?case by auto
next
  case (JObj kvs)
  let ?item = "\<lambda>kv. dumps_str (fst kv) @ str '': '' @ json_dumps (snd kv)"
  have item: "\<forall>c \<in> set (?item kv). c < 0x80" if "kv \<in> set kvs" for kv
  proof -
    have "snd kv \<in> Basic_BNFs.snds kv" by (cases kv) simp
    with JObj.IH that have "\<forall>c \<in> set (json_dumps (snd kv)). c < 0x80" by blast
    then show ?thesis by (auto dest: dumps_str_ascii)
  qed
  have "\<forall>c \<in> set (join (str '', '') (map ?item kvs)). c < 0x80"
    by (rule join_all) (use item in auto)
  then show ?case by auto
qed (auto dest: dumps_str_ascii)

lemma json_dumps_ascii: "c \<in> set (json_dumps v) \<Longrightarrow> c < 0x80"
  using json_dumps_all_ascii by blast

lemma utf8_encode_ascii: "(\<forall>c \<in> set s. c < 0x80) \<Longrightarrow> utf8_encode s = Some s"
  by (induction s) (auto simp: utf8_encode_char_def)

lemma json_dumps_encodes: "utf8_encode (json_dumps v) = Some (json_dumps v)"
  by (rule utf8_encode_ascii) (blast dest: json_dumps_ascii)

lemma acknowledge_eq:
  "acknowledge e rq r =
     (if request_version rq = str ''HTTP/0.9''
      then BodyOnly (json_dumps (JObj [(str ''status'', JStr (str ''received'')),
                                       (str ''timestamp'', JStr (timestamp r))]))
      else Sent 200 [(str ''Server'', version_string e), (str ''Date'', date_time_string e),
                     (str ''Content-type'', str ''application/json'')]
             (json_dumps (JObj [(str ''status'', JStr (str ''received'')),
                                (str ''timestamp'', JStr (timestamp r))])))"
proof -
  let ?v = "JObj [(str ''status'', JStr (str ''received'')), (str ''timestamp'', JStr (timestamp r))]"
  have "utf8_encode (json_dumps ?v) = Some (json_dumps ?v)"
    by (rule json_dumps_encodes)
  then show ?thesis
    unfolding acknowledge_def Let_def send_response_def send_header_def wfile_write_def by simp
qed

section \<open>The handler\<close>

lemma handle_request_cases:
  "handle_request e meth rq rlog =
     (case read_body e rq of
        Inl err \<Rightarrow> (rlog, Raised err)
      | Inr b \<Rightarrow>
          (rlog @ [\<lparr>timestamp = now e, rmethod = meth, rpath = path rq,
                     rheaders = headers_dict (headers rq), body = b\<rparr>],
           case console_output e b of
             Some err \<Rightarrow> Raised err
           | None \<Rightarrow>
               acknowledge e rq \<lparr>timestamp = now e, rmethod = meth, rpath = path rq,
                                  rheaders = headers_dict (headers rq), body = b\<rparr>))"
  unfolding handle_request_def Let_def by simp

lemma WebhookHandler_supported:
  "command rq \<in> set WebhookHandler_methods
   \<Longrightarrow> WebhookHandler e rq rlog = handle_request e (command rq) rq rlog"
  unfolding WebhookHandler_def WebhookHandler_methods_def by auto

lemma WebhookHandler_unsupported:
  "command rq \<notin> set WebhookHandler_methods \<Longrightarrow> WebhookHandler e rq rlog = (rlog, SendError 501)"
  unfolding WebhookHandler_def WebhookHandler_methods_def by auto

lemma WebhookHandler_append:
  "WebhookHandler e rq rlog = (rlog @ fst (WebhookHandler e rq []), snd (WebhookHandler e rq []))"
  by (simp add: WebhookHandler_def handle_request_cases split: sum.splits)

lemma serve_Cons:
  "serve ((e, rq) # conns) rlog =
     (fst (serve conns (fst (WebhookHandler e rq rlog))),
      snd (WebhookHandler e rq rlog) # snd (serve conns (fst (WebhookHandler e rq rlog))))"
  by (simp add: Let_def case_prod_beta)

lemma serve_append: "serve conns rlog = (rlog @ fst (serve conns []), snd (serve conns []))"
proof (induction conns arbitrary: rlog)
  case Nil
  show ?case by simp
next
  case (Cons c conns)
  obtain e rq where c: "c = (e, rq)" by (cases c)
  let ?l = "fst (WebhookHandler e rq [])"
  have w: "fst (WebhookHandler e rq rlog) = rlog @ ?l"
    "snd (WebhookHandler e rq rlog) = snd (WebhookHandler e rq [])"
    using WebhookHandler_append [of e rq rlog] by (metis fst_conv, metis snd_conv)
  have 1: "serve conns (rlog @ ?l) = (rlog @ ?l @ fst (serve conns []), snd (serve conns []))"
    using Cons.IH [of "rlog @ ?l"] by simp
  have 2: "serve conns ?l = (?l @ fst (serve conns []), snd (serve conns []))"
    using Cons.IH [of ?l] by simp
  show ?case
    unfolding c serve_Cons w by (simp add: 1 2)
qed

lemmas py_int_eval =
  py_int_def strip_def is_space_def is_digit_def digits_value_def int_max_str_digits_def

section \<open>The sender's trace\<close>

lemma for_loop_runs:
  "\<forall>i \<in> set ks. snd (f i) = None \<Longrightarrow> for_loop f ks = (concat (map (\<lambda>i. fst (f i)) ks), None)"
  by (induction ks) (auto split: prod.splits option.splits)

lemma attempt_runs:
  "\<forall>err. console_print err = None \<Longrightarrow> snd (attempt meth repeat d net console_print i) = None"
  by (simp add: attempt_def Let_def except_clause_def split: http_result.splits option.splits)


lemma send_loop_runs:
  assumes "\<forall>err. console_print err = None"
  shows "send_loop meth repeat d net console_print
         = (concat (map (\<lambda>i. fst (attempt meth repeat d net console_print i)) [0..<nat repeat])
            @ (if repeat > 1 then [PrintSent repeat] else []), None)"
proof -
  have "\<forall>i \<in> set [0..<nat repeat]. snd (attempt meth repeat d net console_print i) = None"
    using attempt_runs [OF assms] by blast
  then have "for_loop (attempt meth repeat d net console_print) [0..<nat repeat]
             = (concat (map (\<lambda>i. fst (attempt meth repeat d net console_print i)) [0..<nat repeat]), None)"
    by (rule for_loop_runs)
  then show ?thesis
    by (simp add: send_loop_def)
qed




lemma sleeps_of_send_loop:
  assumes "\<forall>err. console_print err = None"
  shows "filter is_sleep (fst (send_loop meth repeat d net console_print))
         = concat (map (\<lambda>i. case net i of
                                Raises err \<Rightarrow> []
                              | Resp code \<Rightarrow>
                                  if repeat > 1 \<and> int i < repeat - 1 \<and> d > 0 \<and> time_sleep d = None
                                  then [Sleep d] else [])
                     [0..<nat repeat])"
proof -
  have "filter is_sleep (concat (map (\<lambda>i. fst (attempt meth repeat d net console_print i)) xs))
        = concat (map (\<lambda>i. case net i of
                               Raises err \<Rightarrow> []
                             | Resp code \<Rightarrow>
                                 if repeat > 1 \<and> int i < repeat - 1 \<and> d > 0 \<and> time_sleep d = None
                                 then [Sleep d] else [])
                    xs)" for xs
    using assms
    by (induction xs)
       (simp_all add: attempt_def Let_def except_clause_def is_sleep_def
             split: http_result.splits option.splits)
  then show ?thesis
    by (simp add: send_loop_runs [OF assms] is_sleep_def)
qed

section \<open>The serving loop on the clock\<close>

lemma serve_forever_Cons:
  "serve_forever handler t ((arrival, c) # conns) s =
     (fst (serve_forever handler (max t arrival + snd (snd (handler c s))) conns (fst (handler c s))),
      (max t arrival, max t arrival + snd (snd (handler c s)), fst (snd (handler c s)))
      # snd (serve_forever handler (max t arrival + snd (snd (handler c s))) conns (fst (handler c s))))"
  by (simp add: Let_def case_prod_beta)

lemma serve_forever_length: "length (snd (serve_forever handler t conns s)) = length conns"
proof (induction conns arbitrary: t s)
  case Nil
  show ?case by simp
next
  case (Cons x conns)
  obtain a c where x: "x = (a, c)" by (cases x)
  show ?case unfolding x serve_forever_Cons by (simp add: Cons.IH)
qed

lemma serve_forever_after:
  assumes "\<forall>x \<in> set conns. \<forall>s. 0 \<le> snd (snd (handler (snd x) s))" and "k < length conns"
  shows "t \<le> fst (snd (serve_forever handler t conns s) ! k)"
  using assms
proof (induction conns arbitrary: t s k)
  case Nil
  then show ?case by simp
next
  case (Cons x conns)
  obtain a c where x: "x = (a, c)" by (cases x)
  show ?case
  proof (cases k)
    case 0
    then show ?thesis unfolding x serve_forever_Cons by simp
  next
    case (Suc k')
    from Cons.prems(1) x have took: "0 \<le> snd (snd (handler c s))" by simp
    from Cons.prems(1) have rest: "\<forall>x \<in> set conns. \<forall>s. 0 \<le> snd (snd (handler (snd x) s))" by simp
    from Cons.prems(2) Suc have "k' < length conns" by simp
    from Cons.IH [OF rest this, of "max t a + snd (snd (handler c s))" "fst (handler c s)"] took
    show ?thesis unfolding x serve_forever_Cons Suc by simp
  qed
qed

lemma serve_forever_sequential:
  assumes "\<forall>x \<in> set conns. \<forall>s. 0 \<le> snd (snd (handler (snd x) s))" and "i < j" and "j < length conns"
  shows "fst (snd (snd (serve_forever handler t conns s) ! i))
         \<le> fst (snd (serve_forever handler t conns s) ! j)"
  using assms
proof (induction conns arbitrary: t s i j)
  case Nil
  then show ?case by simp
next
  case (Cons x conns)
  obtain a c where x: "x = (a, c)" by (cases x)
  from Cons.prems(2) obtain j' where j: "j = Suc j'" by (cases j) auto
  from Cons.prems(1) have rest: "\<forall>x \<in> set conns. \<forall>s. 0 \<le> snd (snd (handler (snd x) s))" by simp
  from Cons.prems(3) j have j': "j' < length conns" by simp
  show ?case
  proof (cases i)
    case 0
    from serve_forever_after [OF rest j', of "max t a + snd (snd (handler c s))" "fst (handler c s)"]
    show ?thesis unfolding x serve_forever_Cons j 0 by simp
  next
    case (Suc i')
    with Cons.prems(2) j have "i' < j'" by simp
    from Cons.IH [OF rest this j', of "max t a + snd (snd (handler c s))" "fst (handler c s)"]
    show ?thesis unfolding x serve_forever_Cons j Suc by simp
  qed
qed

lemma listen_on_clock_serve:
  "fst (listen_on_clock t conns rlog) = fst (serve (map (\<lambda>c. snd (snd c)) conns) rlog)
   \<and> map (\<lambda>x. snd (snd x)) (snd (listen_on_clock t conns rlog))
       = snd (serve (map (\<lambda>c. snd (snd c)) conns) rlog)"
proof -
  define H where "H = (\<lambda>(took :: real, e, rq) rlog.
                         case WebhookHandler e rq rlog of (rlog', out) \<Rightarrow> (rlog', out, took))"
  have H: "H (k, e, rq) rlog = (fst (WebhookHandler e rq rlog), snd (WebhookHandler e rq rlog), k)"
    for k e rq rlog
    by (simp add: H_def case_prod_beta)
  have "fst (serve_forever H t conns rlog) = fst (serve (map (\<lambda>c. snd (snd c)) conns) rlog)
        \<and> map (\<lambda>x. snd (snd x)) (snd (serve_forever H t conns rlog))
            = snd (serve (map (\<lambda>c. snd (snd c)) conns) rlog)"
  proof (induction conns arbitrary: t rlog)
    case Nil
    show ?case by simp
  next
    case (Cons x conns)
    obtain a k e rq where x: "x = (a, k, e, rq)" by (cases x)
    show ?case
      unfolding x serve_forever_Cons H by (simp add: Cons.IH case_prod_beta)
  qed
  then show ?thesis
    unfolding listen_on_clock_def H_def .
qed

lemma mock_on_clock_server:
  "map (\<lambda>x. snd (snd x)) (mock_on_clock cfg t conns) = mock_server cfg (map snd conns)"
proof -
  define H where "H = (\<lambda>(e, rq) (u :: unit).
                         case MockHandler cfg e rq of (fx, out) \<Rightarrow> (u, (fx, out), sleep_time fx))"
  have H: "H (e, rq) u = (u, MockHandler cfg e rq, sleep_time (fst (MockHandler cfg e rq)))"
    for e rq u
    by (simp add: H_def case_prod_beta)
  have "map (\<lambda>x. snd (snd x)) (snd (serve_forever H t conns ()))
        = map (\<lambda>(e, rq). MockHandler cfg e rq) (map snd conns)"
  proof (induction conns arbitrary: t)
    case Nil
    show ?case by simp
  next
    case (Cons x conns)
    obtain a e rq where x: "x = (a, e, rq)" by (cases x)
    show ?case
      unfolding x serve_forever_Cons H by (simp add: Cons.IH)
  qed
  then show ?thesis
    unfolding mock_on_clock_def mock_server_def H_def .
qed

lemma sleep_time_MockHandler: "0 \<le> sleep_time (fst (MockHandler cfg e rq))"
  by (simp add: MockHandler_def respond_def sleep_time_def split: option.splits)

section \<open>\<^verbatim>\<open>json.loads\<close> reads back what \<^verbatim>\<open>json.dump\<close> wrote\<close>

declare scanstring.simps [simp del]

lemma hex_val_hex_digit: "d < 16 \<Longrightarrow> hex_val (hex_digit d) = Some d"
  by (auto simp: hex_val_def hex_digit_def)

lemma hex4_value:
  fixes n :: nat
  assumes "n < 0x10000"
  shows "((n div 0x1000 mod 0x10 * 0x10 + n div 0x100 mod 0x10) * 0x10 + n div 0x10 mod 0x10) * 0x10
         + n mod 0x10 = n"
proof -
  define n1 where "n1 = n div 0x10"
  define n2 where "n2 = n1 div 0x10"
  define n3 where "n3 = n2 div 0x10"
  have d2: "n div 0x100 = n2"
    unfolding n2_def n1_def by (simp add: div_mult2_eq [symmetric])
  have d3: "n div 0x1000 = n3"
    unfolding n3_def n2_def n1_def by (simp add: div_mult2_eq [symmetric])
  have e0: "n = n1 * 0x10 + n mod 0x10" unfolding n1_def by simp
  have e1: "n1 = n2 * 0x10 + n1 mod 0x10" unfolding n2_def by simp
  have e2: "n2 = n3 * 0x10 + n2 mod 0x10" unfolding n3_def by simp
  have "n3 < 0x10" using assms d3 by (simp add: less_mult_imp_div_less)
  then have e3: "n3 mod 0x10 = n3" by simp
  show ?thesis
    unfolding d2 d3 e3 n1_def [symmetric]
    by (simp only: e2 [symmetric] e1 [symmetric] e0 [symmetric])
qed

lemma decode_hex_digits:
  assumes "a < 16" "b < 16" "c < 16" "d < 16"
  shows "decode_uXXXX (hex_digit a # hex_digit b # hex_digit c # hex_digit d # rest)
         = Some (((a * 0x10 + b) * 0x10 + c) * 0x10 + d, rest)"
  using assms by (simp add: hex_val_hex_digit)

lemma decode_u_escape:
  assumes "n < 0x10000"
  obtains t where "u_escape n @ rest = 0x5C # 0x75 # t" and "decode_uXXXX t = Some (n, rest)"
proof
  let ?t = "hex_digit (n div 0x1000 mod 0x10) # hex_digit (n div 0x100 mod 0x10)
            # hex_digit (n div 0x10 mod 0x10) # hex_digit (n mod 0x10) # rest"
  show "u_escape n @ rest = 0x5C # 0x75 # ?t"
    by (simp add: u_escape_def)
  have "decode_uXXXX ?t
        = Some (((n div 0x1000 mod 0x10 * 0x10 + n div 0x100 mod 0x10) * 0x10
                 + n div 0x10 mod 0x10) * 0x10 + n mod 0x10, rest)"
    by (rule decode_hex_digits) simp_all
  then show "decode_uXXXX ?t = Some (n, rest)"
    by (simp only: hex4_value [OF assms])
qed

lemma scanstring_quote: "scanstring (0x22 # rest) = Some ([], rest)"
  by (simp add: scanstring.simps)

lemma scanstring_plain:
  "0x20 \<le> c \<Longrightarrow> c \<noteq> 0x22 \<Longrightarrow> c \<noteq> 0x5C \<Longrightarrow> scanstring (c # cs) = cons_result c (scanstring cs)"
  by (simp add: scanstring.simps)

lemma scanstring_short:
  "esc \<noteq> 0x75 \<Longrightarrow> backslash esc = Some ch
   \<Longrightarrow> scanstring (0x5C # esc # r) = cons_result ch (scanstring r)"
  by (simp add: scanstring.simps)

lemma scanstring_u:
  assumes "n < 0x10000" and "\<not> (0xD800 \<le> n \<and> n \<le> 0xDBFF)"
  shows "scanstring (u_escape n @ r) = cons_result n (scanstring r)"
proof -
  from decode_u_escape [OF assms(1), of r]
  obtain t where t: "u_escape n @ r = 0x5C # 0x75 # t" "decode_uXXXX t = Some (n, r)" .
  have "scanstring (0x5C # 0x75 # t) = cons_result n (scanstring r)"
    using assms(2) t(2) by (auto simp: scanstring.simps)
  with t(1) show ?thesis by simp
qed

lemma scanstring_pair:
  assumes "0x10000 \<le> c" and "c < 0x110000"
  shows "scanstring (u_escape (0xD800 + (c - 0x10000) div 0x400 mod 0x400)
                     @ u_escape (0xDC00 + (c - 0x10000) mod 0x400) @ r)
         = cons_result c (scanstring r)"
proof -
  define hi where "hi = 0xD800 + (c - 0x10000) div 0x400 mod 0x400"
  define lo where "lo = 0xDC00 + (c - 0x10000) mod 0x400"
  have hi: "hi < 0x10000" "0xD800 \<le> hi" "hi \<le> 0xDBFF" by (simp_all add: hi_def)
  have lo: "lo < 0x10000" "0xDC00 \<le> lo" "lo \<le> 0xDFFF" by (simp_all add: lo_def)
  have "(c - 0x10000) div 0x400 < 0x400" using assms by simp
  then have "(c - 0x10000) div 0x400 mod 0x400 = (c - 0x10000) div 0x400" by simp
  then have "(hi - 0xD800) * 0x400 + (lo - 0xDC00) = c - 0x10000"
    by (simp add: hi_def lo_def)
  with assms have val: "0x10000 + ((hi - 0xD800) * 0x400 + (lo - 0xDC00)) = c" by simp
  from decode_u_escape [OF lo(1), of r]
  obtain t2 where t2: "u_escape lo @ r = 0x5C # 0x75 # t2" "decode_uXXXX t2 = Some (lo, r)" .
  from decode_u_escape [OF hi(1), of "0x5C # 0x75 # t2"]
  obtain t1 where t1: "u_escape hi @ 0x5C # 0x75 # t2 = 0x5C # 0x75 # t1"
    "decode_uXXXX t1 = Some (hi, 0x5C # 0x75 # t2)" .
  have "scanstring (0x5C # 0x75 # t1) = cons_result c (scanstring r)"
    using hi(2,3) lo(2,3) t1(2) t2(2) val by (simp add: scanstring.simps)
  with t1(1) t2(1) show ?thesis
    unfolding hi_def [symmetric] lo_def [symmetric] by simp
qed

lemma scanstring_esc_char:
  assumes "scalar c"
  shows "scanstring (esc_char c @ r) = cons_result c (scanstring r)"
proof -
  consider "c = 0x5C" | "c = 0x22" | "c = 0x0A" | "c = 0x0D" | "c = 0x09" | "c = 0x0C" | "c = 0x08"
    | "0x20 \<le> c" "c \<le> 0x7E" "c \<noteq> 0x5C" "c \<noteq> 0x22"
    | "c < 0x20" "c \<noteq> 0x0A" "c \<noteq> 0x0D" "c \<noteq> 0x09" "c \<noteq> 0x0C" "c \<noteq> 0x08"
    | "0x7E < c" "c < 0x10000"
    | "0x10000 \<le> c"
    by linarith
  then show ?thesis
  proof cases
    case 8
    then show ?thesis by (simp add: esc_char_def scanstring_plain)
  next
    case 9
    then have "esc_char c = u_escape c" by (simp add: esc_char_def)
    with 9 show ?thesis by (simp add: scanstring_u)
  next
    case 10
    then have "esc_char c = u_escape c" by (simp add: esc_char_def)
    moreover from assms 10 have "\<not> (0xD800 \<le> c \<and> c \<le> 0xDBFF)" by (auto simp: scalar_def)
    ultimately show ?thesis using 10 by (simp add: scanstring_u)
  next
    case 11
    with assms have b: "c < 0x110000" by (simp add: scalar_def)
    from 11 have e: "esc_char c = u_escape (0xD800 + (c - 0x10000) div 0x400 mod 0x400)
           @ u_escape (0xDC00 + (c - 0x10000) mod 0x400)" by (simp add: esc_char_def)
    show ?thesis
      unfolding e using scanstring_pair [OF 11 b, of r] by (simp only: append_assoc)
  qed (simp_all add: esc_char_def scanstring_short backslash_def)
qed

lemma scanstring_dumps:
  "list_all scalar s \<Longrightarrow> scanstring (concat (map esc_char s) @ 0x22 # rest) = Some (s, rest)"
  by (induction s) (simp_all add: scanstring_quote scanstring_esc_char cons_result_def)

lemma skip_ws_newline_indent: "skip_ws (newline_indent k @ xs) = skip_ws xs"
  unfolding skip_ws_def by (rule dropWhile_append2) (auto simp: newline_indent_def is_ws_def)

lemma skip_ws_Cons: "\<not> is_ws c \<Longrightarrow> skip_ws (c # xs) = c # xs"
  by (simp add: skip_ws_def)

lemma skip_ws_space: "skip_ws (0x20 # xs) = skip_ws xs"
  by (simp add: skip_ws_def is_ws_def)

lemma skip_ws_Nil: "skip_ws [] = []"
  by (simp add: skip_ws_def)

lemma value_start_facts: "value_start c \<Longrightarrow> \<not> is_ws c \<and> c \<noteq> 0x5D \<and> c \<noteq> 0x7D \<and> c \<noteq> 0x2C"
  by (auto simp: value_start_def is_ws_def)

lemma dump_starts: "\<exists>c r. json_dump_indent l v = c # r \<and> value_start c"
  by (cases v) (auto simp: value_start_def dumps_str_def)

lemma join_Cons: "xs \<noteq> [] \<Longrightarrow> join sep (x # xs) = x @ sep @ join sep xs"
  by (cases xs) simp_all

lemma newline_indent_length: "length (newline_indent k) = Suc (2 * k)"
  by (simp add: newline_indent_def)

lemma expect_Cons: "expect c (c # r) = Some r"
  by (simp add: expect_def)

lemma scan_items_Suc:
  assumes "scan_once n s = Some (v, r)" and "skip_ws r = x # r'"
  shows "scan_items (Suc n) s =
           (if x = 0x5D then Some ([v], r')
            else if x = 0x2C then cons_result v (scan_items n (skip_ws r'))
            else None)"
  using assms by simp

lemma scan_items_join:
  assumes IH: "\<And>x n rest. x \<in> set vs \<Longrightarrow> length (json_dump_indent k x) < n
                 \<Longrightarrow> scan_once n (json_dump_indent k x @ rest) = Some (x, rest)"
    and "vs \<noteq> []"
    and "length (join (0x2C # newline_indent k) (map (json_dump_indent k) vs))
           + length (newline_indent l) < n"
  shows "scan_items n (join (0x2C # newline_indent k) (map (json_dump_indent k) vs)
                       @ newline_indent l @ 0x5D # rest) = Some (vs, rest)"
  using assms(2,1,3)
proof (induction vs arbitrary: n rule: list_nonempty_induct)
  case (single v)
  from single.prems(2) obtain m where n: "n = Suc m"
    and m: "length (json_dump_indent k v) < m"
    by (cases n) (auto simp: newline_indent_length)
  have 1: "scan_once m (json_dump_indent k v @ newline_indent l @ 0x5D # rest)
           = Some (v, newline_indent l @ 0x5D # rest)"
    by (rule single.prems(1)) (use m in simp_all)
  have 2: "skip_ws (newline_indent l @ 0x5D # rest) = 0x5D # rest"
    by (simp add: skip_ws_newline_indent skip_ws_Cons is_ws_def)
  show ?case
    unfolding n using scan_items_Suc [OF 1 2] by simp
next
  case (cons v vs)
  let ?sep = "0x2C # newline_indent k"
  let ?tail = "join ?sep (map (json_dump_indent k) vs) @ newline_indent l @ 0x5D # rest"
  have j: "join ?sep (map (json_dump_indent k) (v # vs))
           = json_dump_indent k v @ ?sep @ join ?sep (map (json_dump_indent k) vs)"
    using cons.hyps by (simp add: join_Cons)
  from cons.prems(2) obtain m where n: "n = Suc m"
    and m: "length (json_dump_indent k v) < m"
    and m': "length (join ?sep (map (json_dump_indent k) vs)) + length (newline_indent l) < m"
    unfolding j by (cases n) (auto simp: newline_indent_length)
  have 1: "scan_once m (json_dump_indent k v @ 0x2C # newline_indent k @ ?tail)
           = Some (v, 0x2C # newline_indent k @ ?tail)"
    by (rule cons.prems(1)) (use m in simp_all)
  have 2: "skip_ws (0x2C # newline_indent k @ ?tail) = 0x2C # newline_indent k @ ?tail"
    by (simp add: skip_ws_Cons is_ws_def)
  obtain w ws where vs: "vs = w # ws" using cons.hyps by (cases vs) auto
  obtain c r where c: "json_dump_indent k w = c # r" "value_start c"
    using dump_starts by blast
  have "\<exists>r'. ?tail = c # r'"
    unfolding vs using c(1) by (cases ws) simp_all
  then obtain r' where "?tail = c # r'" ..
  with c(2) have 3: "skip_ws (newline_indent k @ ?tail) = ?tail"
    by (simp add: skip_ws_newline_indent skip_ws_Cons value_start_facts)
  have 4: "scan_items m ?tail = Some (vs, rest)"
    by (rule cons.IH) (use cons.prems(1) m' in simp_all)
  have "scan_items n (json_dump_indent k v @ 0x2C # newline_indent k @ ?tail) = Some (v # vs, rest)"
    unfolding n using scan_items_Suc [OF 1 2] by (simp add: 3 4 cons_result_def)
  then show ?case
    unfolding j by simp
qed

lemma dict_set_fresh: "k \<notin> fst ` set d \<Longrightarrow> dict_set d k v = d @ [(k, v)]"
  by (induction d k v rule: dict_set.induct) auto

lemma fold_dict_set_distinct:
  "distinct (map fst (acc @ kvs))
   \<Longrightarrow> fold (\<lambda>kv d. dict_set d (fst kv) (snd kv)) kvs acc = acc @ kvs"
proof (induction kvs arbitrary: acc)
  case Nil
  show ?case by simp
next
  case (Cons kv kvs)
  from Cons.prems have "fst kv \<notin> fst ` set acc" by auto
  then have "dict_set acc (fst kv) (snd kv) = acc @ [kv]"
    by (simp add: dict_set_fresh)
  moreover from Cons.prems have "distinct (map fst ((acc @ [kv]) @ kvs))" by simp
  ultimately show ?case
    using Cons.IH [of "acc @ [kv]"] by simp
qed

lemma dict_of_pairs_distinct: "distinct (map fst kvs) \<Longrightarrow> dict_of_pairs kvs = kvs"
  using fold_dict_set_distinct [of "[]" kvs] by (simp add: dict_of_pairs_def)

lemma scan_members_Suc:
  assumes "scanstring s = Some (key, r)" and "expect 0x3A (skip_ws r) = Some r1"
    and "scan_once n (skip_ws r1) = Some (v, r2)" and "skip_ws r2 = x # r3"
  shows "scan_members (Suc n) s =
           (if x = 0x7D then Some ([(key, v)], r3)
            else if x = 0x2C then
              (case expect 0x22 (skip_ws r3) of
                 None \<Rightarrow> None
               | Some r4 \<Rightarrow> cons_result (key, v) (scan_members n r4))
            else None)"
  using assms by simp

lemma scan_members_join:
  fixes k l :: nat and rest :: pystr and item :: "pystr \<times> json \<Rightarrow> pystr"
  assumes item_def: "item = (\<lambda>kv. dumps_str (fst kv) @ str '': '' @ json_dump_indent k (snd kv))"
    and IH: "\<And>kv n rest. kv \<in> set kvs \<Longrightarrow> length (json_dump_indent k (snd kv)) < n
                 \<Longrightarrow> scan_once n (json_dump_indent k (snd kv) @ rest) = Some (snd kv, rest)"
    and keys: "\<forall>kv \<in> set kvs. list_all scalar (fst kv)"
    and "kvs \<noteq> []"
    and "length (join (0x2C # newline_indent k) (map item kvs)) + length (newline_indent l) < n"
  shows "\<exists>t. join (0x2C # newline_indent k) (map item kvs) @ newline_indent l @ 0x7D # rest
                = 0x22 # t
             \<and> scan_members n t = Some (kvs, rest)"
  using assms(4,2,3,5)
proof (induction kvs arbitrary: n rule: list_nonempty_induct)
  case (single kv)
  let ?v = "json_dump_indent k (snd kv)"
  let ?after = "newline_indent l @ 0x7D # rest"
  let ?t = "concat (map esc_char (fst kv)) @ 0x22 # 0x3A # 0x20 # ?v @ ?after"
  have shape: "join (0x2C # newline_indent k) (map item [kv]) @ ?after = 0x22 # ?t"
    by (simp add: item_def dumps_str_def)
  from single.prems(3) obtain m where n: "n = Suc m" and m: "length ?v < m"
    by (cases n) (auto simp: item_def newline_indent_length)
  have 1: "scanstring ?t = Some (fst kv, 0x3A # 0x20 # ?v @ ?after)"
    by (rule scanstring_dumps) (use single.prems(2) in simp)
  have 2: "expect 0x3A (skip_ws (0x3A # 0x20 # ?v @ ?after)) = Some (0x20 # ?v @ ?after)"
    by (simp add: skip_ws_Cons is_ws_def expect_Cons)
  obtain c r where c: "?v = c # r" "value_start c" using dump_starts by blast
  then have ws: "skip_ws (0x20 # ?v @ ?after) = ?v @ ?after"
    by (simp add: skip_ws_space skip_ws_Cons value_start_facts)
  have 3: "scan_once m (skip_ws (0x20 # ?v @ ?after)) = Some (snd kv, ?after)"
    unfolding ws by (rule single.prems(1)) (use m in simp_all)
  have 4: "skip_ws ?after = 0x7D # rest"
    by (simp add: skip_ws_newline_indent skip_ws_Cons is_ws_def)
  have "scan_members n ?t = Some ([kv], rest)"
    unfolding n using scan_members_Suc [OF 1 2 3 4] by simp
  with shape show ?case by blast
next
  case (cons kv kvs)
  let ?sep = "0x2C # newline_indent k"
  let ?v = "json_dump_indent k (snd kv)"
  let ?tail = "join ?sep (map item kvs) @ newline_indent l @ 0x7D # rest"
  let ?after = "0x2C # newline_indent k @ ?tail"
  let ?t = "concat (map esc_char (fst kv)) @ 0x22 # 0x3A # 0x20 # ?v @ ?after"
  have shape: "join ?sep (map item (kv # kvs)) @ newline_indent l @ 0x7D # rest = 0x22 # ?t"
    using cons.hyps by (simp add: join_Cons item_def dumps_str_def)
  have len: "length (join ?sep (map item (kv # kvs)))
             = length (item kv) + Suc (length (newline_indent k)) + length (join ?sep (map item kvs))"
    using cons.hyps by (simp add: join_Cons)
  from cons.prems(3) obtain m where n: "n = Suc m" and m: "length ?v < m"
    and m': "length (join ?sep (map item kvs)) + length (newline_indent l) < m"
    unfolding len by (cases n) (auto simp: item_def newline_indent_length)
  from cons.IH [of m] cons.prems(1,2) m'
  obtain t' where t': "?tail = 0x22 # t'" "scan_members m t' = Some (kvs, rest)"
    by auto
  have 1: "scanstring ?t = Some (fst kv, 0x3A # 0x20 # ?v @ ?after)"
    by (rule scanstring_dumps) (use cons.prems(2) in simp)
  have 2: "expect 0x3A (skip_ws (0x3A # 0x20 # ?v @ ?after)) = Some (0x20 # ?v @ ?after)"
    by (simp add: skip_ws_Cons is_ws_def expect_Cons)
  obtain c r where c: "?v = c # r" "value_start c" using dump_starts by blast
  then have ws: "skip_ws (0x20 # ?v @ ?after) = ?v @ ?after"
    by (simp add: skip_ws_space skip_ws_Cons value_start_facts)
  have 3: "scan_once m (skip_ws (0x20 # ?v @ ?after)) = Some (snd kv, ?after)"
    unfolding ws by (rule cons.prems(1)) (use m in simp_all)
  have 4: "skip_ws ?after = 0x2C # newline_indent k @ ?tail"
    by (simp add: skip_ws_Cons is_ws_def)
  have 5: "expect 0x22 (skip_ws (newline_indent k @ ?tail)) = Some t'"
    unfolding t'(1) by (simp add: skip_ws_newline_indent skip_ws_Cons is_ws_def expect_Cons)
  have "scan_members n ?t = Some (kv # kvs, rest)"
    unfolding n using scan_members_Suc [OF 1 2 3 4] by (simp add: 5 t'(2) cons_result_def)
  with shape show ?case by blast
qed

lemma scan_once_obj:
  "skip_ws cs = 0x22 # r
   \<Longrightarrow> scan_once (Suc n) (0x7B # cs)
       = map_option (\<lambda>(kvs, r'). (JObj (dict_of_pairs kvs), r')) (scan_members n r)"
  by simp

lemma scan_once_arr:
  "skip_ws cs = x # r \<Longrightarrow> x \<noteq> 0x5D
   \<Longrightarrow> scan_once (Suc n) (0x5B # cs) = map_option (\<lambda>(vs, r'). (JArr vs, r')) (scan_items n (x # r))"
  by simp

lemma scan_once_dump:
  "wf_json v \<Longrightarrow> length (json_dump_indent l v) < n
   \<Longrightarrow> scan_once n (json_dump_indent l v @ rest) = Some (v, rest)"
proof (induction v arbitrary: l n rest)
  case JNull
  then obtain m where "n = Suc m" by (cases n) auto
  then show ?case by simp
next
  case (JBool b)
  then obtain m where "n = Suc m" by (cases n) auto
  then show ?case by simp
next
  case (JStr s)
  then obtain m where "n = Suc m" by (cases n) auto
  with JStr.prems(1) show ?case
    by (simp add: dumps_str_def scanstring_dumps)
next
  case (JArr vs)
  from JArr.prems(2) obtain m where n: "n = Suc m" by (cases n) auto
  show ?case
  proof (cases "vs = []")
    case True
    then show ?thesis
      unfolding n by (simp add: skip_ws_Cons is_ws_def)
  next
    case False
    let ?k = "Suc l"
    let ?items = "join (0x2C # newline_indent ?k) (map (json_dump_indent ?k) vs)"
    let ?tail = "?items @ newline_indent l @ 0x5D # rest"
    have shape: "json_dump_indent l (JArr vs) @ rest = 0x5B # newline_indent ?k @ ?tail"
      using False by simp
    have len: "length ?items + length (newline_indent l) < m"
      using JArr.prems(2) False unfolding n by (simp add: newline_indent_length)
    have items: "scan_items m ?tail = Some (vs, rest)"
    proof (rule scan_items_join [OF _ False len])
      fix x n' rest'
      assume "x \<in> set vs" and "length (json_dump_indent ?k x) < n'"
      moreover from \<open>x \<in> set vs\<close> JArr.prems(1) have "wf_json x"
        by (simp add: list_all_iff)
      ultimately show "scan_once n' (json_dump_indent ?k x @ rest') = Some (x, rest')"
        using JArr.IH by blast
    qed
    obtain w ws where vs: "vs = w # ws" using False by (cases vs) auto
    obtain c r where c: "json_dump_indent ?k w = c # r" "value_start c"
      using dump_starts by blast
    have "\<exists>r'. ?tail = c # r'"
      unfolding vs using c(1) by (cases ws) simp_all
    then obtain r' where r': "?tail = c # r'" ..
    with c(2) have ws: "skip_ws (newline_indent ?k @ ?tail) = c # r'"
      by (simp add: skip_ws_newline_indent skip_ws_Cons value_start_facts)
    from c(2) have "c \<noteq> 0x5D" by (simp add: value_start_facts)
    then have "scan_once (Suc m) (0x5B # newline_indent ?k @ ?tail)
          = map_option (\<lambda>(vs, r'). (JArr vs, r')) (scan_items m (c # r'))"
      by (rule scan_once_arr [OF ws])
    with items r' show ?thesis
      unfolding shape n by simp
  qed
next
  case (JObj kvs)
  from JObj.prems(2) obtain m where n: "n = Suc m" by (cases n) auto
  show ?case
  proof (cases "kvs = []")
    case True
    then show ?thesis
      unfolding n by (simp add: skip_ws_Cons is_ws_def)
  next
    case False
    let ?k = "Suc l"
    let ?item = "\<lambda>kv. dumps_str (fst kv) @ str '': '' @ json_dump_indent ?k (snd kv)"
    let ?items = "join (0x2C # newline_indent ?k) (map ?item kvs)"
    let ?tail = "?items @ newline_indent l @ 0x7D # rest"
    have shape: "json_dump_indent l (JObj kvs) @ rest = 0x7B # newline_indent ?k @ ?tail"
      using False by simp
    have len: "length ?items + length (newline_indent l) < m"
      using JObj.prems(2) False unfolding n by (simp add: newline_indent_length)
    have keys: "\<forall>kv \<in> set kvs. list_all scalar (fst kv)"
      using JObj.prems(1) by (simp add: list_all_iff)
    have "\<exists>t. ?tail = 0x22 # t \<and> scan_members m t = Some (kvs, rest)"
    proof (rule scan_members_join [OF refl _ keys False len])
      fix kv n' rest'
      assume kv: "kv \<in> set kvs" and "length (json_dump_indent ?k (snd kv)) < n'"
      moreover from kv JObj.prems(1) have "wf_json (snd kv)"
        by (simp add: list_all_iff)
      moreover have "snd kv \<in> Basic_BNFs.snds kv" by (cases kv) simp
      ultimately show "scan_once n' (json_dump_indent ?k (snd kv) @ rest') = Some (snd kv, rest')"
        using JObj.IH by blast
    qed
    then obtain t where t: "?tail = 0x22 # t" "scan_members m t = Some (kvs, rest)" by blast
    have ws: "skip_ws (newline_indent ?k @ ?tail) = 0x22 # t"
      unfolding t(1) by (simp add: skip_ws_newline_indent skip_ws_Cons is_ws_def)
    have "scan_once (Suc m) (0x7B # newline_indent ?k @ ?tail)
          = map_option (\<lambda>(kvs, r'). (JObj (dict_of_pairs kvs), r')) (scan_members m t)"
      by (rule scan_once_obj [OF ws])
    moreover from JObj.prems(1) have "dict_of_pairs kvs = kvs"
      by (simp add: dict_of_pairs_distinct)
    ultimately show ?thesis
      unfolding shape n by (simp add: t(2))
  qed
qed

theorem json_loads_dump:
  assumes "wf_json v"
  shows "json_loads (json_dump_indent 0 v) = Some v"
proof -
  let ?s = "json_dump_indent 0 v"
  obtain c r where c: "?s = c # r" "value_start c" using dump_starts by blast
  then have ws: "skip_ws ?s = ?s"
    by (simp add: skip_ws_Cons value_start_facts)
  have "scan_once (Suc (length ?s)) (?s @ []) = Some (v, [])"
    by (rule scan_once_dump [OF assms]) simp
  then show ?thesis
    by (simp add: json_loads_def ws skip_ws_Nil)
qed

section \<open>The log the server builds\<close>

lemma utf8_decode_step:
  assumes "utf8_decode (b0 # bs) = Some s"
  shows "\<exists>c r t. s = c # t \<and> scalar c \<and> utf8_decode r = Some t \<and> length r \<le> length bs"
proof -
  consider "b0 < 0x80" | "0xC2 \<le> b0 \<and> b0 \<le> 0xDF" | "0xE0 \<le> b0 \<and> b0 \<le> 0xEF"
    | "0xF0 \<le> b0 \<and> b0 \<le> 0xF4" | "0x80 \<le> b0 \<and> b0 < 0xC2" | "0xF4 < b0"
    by linarith
  then show ?thesis
  proof cases
    case 1
    with assms obtain t where "s = b0 # t" "utf8_decode bs = Some t"
      by auto
    moreover from 1 have "scalar b0" by (simp add: scalar_def)
    ultimately show ?thesis by blast
  next
    case 2
    with assms obtain b1 r t where bs: "bs = b1 # r" and b1: "0x80 \<le> b1" "b1 \<le> 0xBF"
      and t: "utf8_decode r = Some t" and s: "s = ((b0 - 0xC0) * 0x40 + (b1 - 0x80)) # t"
      by (auto simp: cont_def split: list.splits if_splits)
    from 2 b1 have "(b0 - 0xC0) * 0x40 + (b1 - 0x80) < 0xD800" by linarith
    then have "scalar ((b0 - 0xC0) * 0x40 + (b1 - 0x80))" by (simp add: scalar_def)
    with bs t s show ?thesis by auto
  next
    case 3
    with assms obtain b1 b2 r t where bs: "bs = b1 # b2 # r"
      and b1: "(if b0 = 0xE0 then 0xA0 else 0x80) \<le> b1" "b1 \<le> (if b0 = 0xED then 0x9F else 0xBF)"
      and b2: "0x80 \<le> b2" "b2 \<le> 0xBF"
      and t: "utf8_decode r = Some t"
      and s: "s = ((b0 - 0xE0) * 0x1000 + (b1 - 0x80) * 0x40 + (b2 - 0x80)) # t"
      by (auto simp: cont_def split: list.splits if_splits)
    let ?c = "(b0 - 0xE0) * 0x1000 + (b1 - 0x80) * 0x40 + (b2 - 0x80)"
    have "?c < 0xD800 \<or> (0xE000 \<le> ?c \<and> ?c < 0x110000)"
    proof (cases "b0 \<le> 0xED")
      case True
      with 3 b1 b2 have "?c < 0xD800" by (auto split: if_splits)
      then show ?thesis ..
    next
      case False
      with 3 b1 b2 have "0xE000 \<le> ?c \<and> ?c < 0x110000" by (auto split: if_splits)
      then show ?thesis ..
    qed
    then have "scalar ?c" by (simp add: scalar_def)
    with bs t s show ?thesis by auto
  next
    case 4
    with assms obtain b1 b2 b3 r t where bs: "bs = b1 # b2 # b3 # r"
      and b1: "(if b0 = 0xF0 then 0x90 else 0x80) \<le> b1" "b1 \<le> (if b0 = 0xF4 then 0x8F else 0xBF)"
      and b2: "0x80 \<le> b2" "b2 \<le> 0xBF" and b3: "0x80 \<le> b3" "b3 \<le> 0xBF"
      and t: "utf8_decode r = Some t"
      and s: "s = ((b0 - 0xF0) * 0x40000 + (b1 - 0x80) * 0x1000 + (b2 - 0x80) * 0x40
                   + (b3 - 0x80)) # t"
      by (auto simp: cont_def split: list.splits if_splits)
    let ?c = "(b0 - 0xF0) * 0x40000 + (b1 - 0x80) * 0x1000 + (b2 - 0x80) * 0x40 + (b3 - 0x80)"
    from 4 b1 b2 b3 have "0xE000 \<le> ?c \<and> ?c < 0x110000" by (auto split: if_splits)
    then have "scalar ?c" by (simp add: scalar_def)
    with bs t s show ?thesis by auto
  next
    case 5
    with assms show ?thesis by simp
  next
    case 6
    with assms show ?thesis by simp
  qed
qed

lemma utf8_decode_scalar: "utf8_decode bs = Some s \<Longrightarrow> list_all scalar s"
proof (induction bs arbitrary: s rule: length_induct)
  case (1 bs)
  show ?case
  proof (cases bs)
    case Nil
    with "1.prems" show ?thesis by simp
  next
    case (Cons b0 bs')
    with "1.prems" utf8_decode_step [of b0 bs' s]
    obtain c r t where "s = c # t" "scalar c" "utf8_decode r = Some t" "length r < length bs"
      by auto
    with "1.IH" show ?thesis by simp
  qed
qed

lemma latin1_scalar: "latin1 s \<Longrightarrow> list_all scalar s"
  by (auto simp: latin1_def scalar_def list_all_iff)

lemma dict_set_keys: "fst ` set (dict_set d k v) = insert k (fst ` set d)"
  by (induction d k v rule: dict_set.induct) auto

lemma dict_set_distinct: "distinct (map fst d) \<Longrightarrow> distinct (map fst (dict_set d k v))"
  by (induction d k v rule: dict_set.induct) (auto simp: dict_set_keys)

lemma dict_set_subset: "set (dict_set d k v) \<subseteq> insert (k, v) (set d)"
  by (induction d k v rule: dict_set.induct) auto

lemma msg_get_in: "msg_get hs name = Some v \<Longrightarrow> v \<in> snd ` set hs"
  by (induction hs name rule: msg_get.induct) (auto split: if_splits)

lemma headers_dict_fold:
  assumes "distinct (map fst d)" and "set d \<subseteq> fst ` set hs \<times> snd ` set hs"
    and "set ks \<subseteq> fst ` set hs"
  shows "distinct (map fst (fold (\<lambda>k d. case msg_get hs k of None \<Rightarrow> d | Some v \<Rightarrow> dict_set d k v) ks d))
       \<and> set (fold (\<lambda>k d. case msg_get hs k of None \<Rightarrow> d | Some v \<Rightarrow> dict_set d k v) ks d)
           \<subseteq> fst ` set hs \<times> snd ` set hs"
  using assms
proof (induction ks arbitrary: d)
  case Nil
  then show ?case by simp
next
  case (Cons k ks)
  let ?d = "case msg_get hs k of None \<Rightarrow> d | Some v \<Rightarrow> dict_set d k v"
  have "distinct (map fst ?d)"
    using Cons.prems(1) by (simp add: dict_set_distinct split: option.splits)
  moreover have "set ?d \<subseteq> fst ` set hs \<times> snd ` set hs"
  proof (cases "msg_get hs k")
    case None
    with Cons.prems(2) show ?thesis by simp
  next
    case (Some v)
    with msg_get_in have "v \<in> snd ` set hs" by blast
    moreover from Cons.prems(3) have "k \<in> fst ` set hs" by simp
    ultimately show ?thesis
      using Some Cons.prems(2) dict_set_subset [of d k v] by auto
  qed
  moreover from Cons.prems(3) have "set ks \<subseteq> fst ` set hs" by simp
  ultimately show ?case
    using Cons.IH [of ?d] by simp
qed

lemma headers_dict_wf:
  "distinct (map fst (headers_dict hs)) \<and> set (headers_dict hs) \<subseteq> fst ` set hs \<times> snd ` set hs"
  unfolding headers_dict_def by (rule headers_dict_fold) auto

lemma read_body_scalar: "read_body e rq = Inr b \<Longrightarrow> list_all scalar b"
  by (auto simp: read_body_def dest: utf8_decode_scalar split: sum.splits if_splits option.splits)

lemma captured_record_wf:
  assumes "wf_conn (e, rq)" and "meth \<in> set WebhookHandler_methods" and "list_all scalar b"
  shows "wf_record \<lparr>timestamp = now e, rmethod = meth, rpath = path rq,
                     rheaders = headers_dict (headers rq), body = b\<rparr>"
proof -
  have m: "list_all scalar meth"
    using assms(2) by (auto simp: WebhookHandler_methods_def scalar_def)
  have h: "list_all (\<lambda>kv. list_all scalar (fst kv) \<and> list_all scalar (snd kv))
             (headers_dict (headers rq))"
  proof -
    have "list_all scalar (fst kv) \<and> list_all scalar (snd kv)" if "kv \<in> set (headers_dict (headers rq))" for kv
    proof -
      from that headers_dict_wf [of "headers rq"]
      have "kv \<in> fst ` set (headers rq) \<times> snd ` set (headers rq)"
        by blast
      then have "fst kv \<in> fst ` set (headers rq)" "snd kv \<in> snd ` set (headers rq)"
        by (simp_all add: mem_Times_iff)
      with assms(1) show ?thesis
        by (auto simp: wf_conn_def list_all_iff intro: latin1_scalar [unfolded list_all_iff, rule_format])
    qed
    then show ?thesis by (simp add: list_all_iff)
  qed
  from assms(1,3) m h headers_dict_wf [of "headers rq"] show ?thesis
    by (simp add: wf_record_def wf_conn_def latin1_scalar)
qed

lemma WebhookHandler_wf:
  assumes "wf_conn (e, rq)" and "list_all wf_record rlog"
  shows "list_all wf_record (fst (WebhookHandler e rq rlog))"
proof (cases "command rq \<in> set WebhookHandler_methods")
  case True
  show ?thesis
  proof (cases "read_body e rq")
    case (Inl err)
    with True assms(2) show ?thesis
      by (simp add: WebhookHandler_supported handle_request_cases)
  next
    case (Inr b)
    then have "list_all scalar b" by (rule read_body_scalar)
    with assms(1) True have "wf_record \<lparr>timestamp = now e, rmethod = command rq, rpath = path rq,
                     rheaders = headers_dict (headers rq), body = b\<rparr>"
      by (rule captured_record_wf [rotated 2, rotated 1]) 
    with True Inr assms(2) show ?thesis
      by (simp add: WebhookHandler_supported handle_request_cases)
  qed
next
  case False
  with assms(2) show ?thesis by (simp add: WebhookHandler_unsupported)
qed

lemma serve_wf:
  "list_all wf_conn conns \<Longrightarrow> list_all wf_record rlog \<Longrightarrow> list_all wf_record (fst (serve conns rlog))"
proof (induction conns arbitrary: rlog)
  case Nil
  then show ?case by simp
next
  case (Cons c conns)
  obtain e rq where c: "c = (e, rq)" by (cases c)
  from Cons.prems c have "list_all wf_record (fst (WebhookHandler e rq rlog))"
    by (simp add: WebhookHandler_wf)
  with Cons.prems(1) Cons.IH show ?case
    unfolding c serve_Cons by simp
qed

lemma to_json_inject: "to_json r = to_json r' \<Longrightarrow> r = r'"
proof -
  assume eq: "to_json r = to_json r'"
  have inj: "inj (\<lambda>kv :: pystr \<times> pystr. (fst kv, JStr (snd kv)))"
    by (auto simp: inj_on_def prod_eq_iff)
  from eq have "timestamp r = timestamp r'" "rmethod r = rmethod r'" "rpath r = rpath r'"
    "body r = body r'"
    "map (\<lambda>kv. (fst kv, JStr (snd kv))) (rheaders r) = map (\<lambda>kv. (fst kv, JStr (snd kv))) (rheaders r')"
    by (simp_all add: to_json_def)
  moreover from this(5) inj have "rheaders r = rheaders r'"
    by (simp add: inj_map_eq_map)
  ultimately show "r = r'" by simp
qed

lemma map_to_json_inject: "map to_json rlog' = map to_json rlog \<Longrightarrow> rlog' = rlog"
proof -
  have "inj to_json" by (auto simp: inj_on_def dest: to_json_inject)
  then show "map to_json rlog' = map to_json rlog \<Longrightarrow> rlog' = rlog"
    by (simp add: inj_map_eq_map)
qed

lemma scalar_ascii: "c < 0x80 \<Longrightarrow> scalar c"
  by (simp add: scalar_def)

lemma wf_json_to_json: "wf_record r \<Longrightarrow> wf_json (to_json r)"
  by (simp add: wf_record_def to_json_def scalar_def list_all_iff comp_def)

lemma load_save_requests:
  assumes "p \<noteq> []" and "rlog \<noteq> []" and "list_all wf_record rlog"
  shows "load (save_requests (Some p) rlog fs) p = Inr (JArr (map to_json rlog))"
proof -
  from assms(3) have "wf_json (JArr (map to_json rlog))"
    by (simp add: list_all_iff wf_json_to_json)
  then have "json_loads (json_dump_indent 0 (JArr (map to_json rlog)))
             = Some (JArr (map to_json rlog))"
    by (rule json_loads_dump)
  with assms(1,2) show ?thesis
    by (simp add: load_def save_requests_def)
qed

lemma listen_then_inspect:
  assumes "p \<noteq> []" and "list_all wf_conn conns" and "fst (serve conns []) \<noteq> []"
  shows "load (snd (fst (start_listener (Some p) conns ([], fs)))) p
         = Inr (JArr (map to_json (fst (fst (start_listener (Some p) conns ([], fs))))))"
proof -
  have wf: "list_all wf_record (fst (serve conns []))"
    by (rule serve_wf [OF assms(2)]) simp
  have "start_listener (Some p) conns ([], fs)
        = ((fst (serve conns []), save_requests (Some p) (fst (serve conns [])) fs), snd (serve conns []))"
    by (simp add: start_listener_def Let_def case_prod_beta)
  with load_save_requests [OF assms(1,3) wf, of fs] show ?thesis by simp
qed

lemma escaped_surrogates_are_joined:
  "json_loads (json_dump_indent 0 (JStr [0xD83D, 0xDE00])) = Some (JStr [0x1F600])"
  by (simp add: json_loads_def skip_ws_def is_ws_def dumps_str_def esc_char_def u_escape_def
        hex_digit_def scanstring.simps hex_val_def cons_result_def)

section \<open>Claims about the capture server\<close>

text \<open>
  C7, as the code has it. Whenever \<^verbatim>\<open>WebhookHandler\<close> appends to the log, it appends exactly
  one record. When the console has printed the trace and the preview of that request, the
  response is the body \<^verbatim>\<open>json.dumps({"status": "received", "timestamp": t})\<close>, where \<open>t\<close> is
  the timestamp of the record just appended: for a request of any version but \<^verbatim>\<open>HTTP/0.9\<close>
  with the status 200 and the header \<^verbatim>\<open>Content-type: application/json\<close> (found under the name
  \<^verbatim>\<open>Content-Type\<close>, header names being compared without regard to case), and for a request
  of version \<^verbatim>\<open>HTTP/0.9\<close> alone, with no status line and no header. Nothing an operator
  passes to \<^verbatim>\<open>listen\<close> enters the response.
\<close>

theorem ack_is_fixed_and_carries_record_timestamp:
  assumes "WebhookHandler e rq rlog = (rlog', out)" and "rlog' \<noteq> rlog"
  shows "\<exists>r. rlog' = rlog @ [r]
           \<and> (console_output e (body r) = None
                \<longrightarrow> out = (if request_version rq = str ''HTTP/0.9''
                            then BodyOnly
                                   (json_dumps (JObj [(str ''status'', JStr (str ''received'')),
                                                      (str ''timestamp'', JStr (timestamp r))]))
                            else Sent 200
                                   [(str ''Server'', version_string e),
                                    (str ''Date'', date_time_string e),
                                    (str ''Content-type'', str ''application/json'')]
                                   (json_dumps (JObj [(str ''status'', JStr (str ''received'')),
                                                      (str ''timestamp'', JStr (timestamp r))]))))
           \<and> msg_get [(str ''Server'', version_string e), (str ''Date'', date_time_string e),
                       (str ''Content-type'', str ''application/json'')]
                 (str ''Content-Type'') = Some (str ''application/json'')"
proof -
  have hdr: "msg_get [(str ''Server'', version_string e), (str ''Date'', date_time_string e),
                      (str ''Content-type'', str ''application/json'')]
               (str ''Content-Type'') = Some (str ''application/json'')"
    by (simp add: py_lower_def)
  show ?thesis
  proof (cases "command rq \<in> set WebhookHandler_methods")
    case True
    show ?thesis
    proof (cases "read_body e rq")
      case (Inl err)
      with True assms show ?thesis
        by (simp add: WebhookHandler_supported handle_request_cases)
    next
      case (Inr b)
      let ?r = "\<lparr>timestamp = now e, rmethod = command rq, rpath = path rq,
                 rheaders = headers_dict (headers rq), body = b\<rparr>"
      from True Inr assms(1) have l: "rlog' = rlog @ [?r]"
        and o: "out = (case console_output e b of Some err \<Rightarrow> Raised err | None \<Rightarrow> acknowledge e rq ?r)"
        by (simp_all add: WebhookHandler_supported handle_request_cases)
      let ?ack = "if request_version rq = str ''HTTP/0.9''
                  then BodyOnly
                         (json_dumps (JObj [(str ''status'', JStr (str ''received'')),
                                            (str ''timestamp'', JStr (timestamp ?r))]))
                  else Sent 200
                         [(str ''Server'', version_string e),
                          (str ''Date'', date_time_string e),
                          (str ''Content-type'', str ''application/json'')]
                         (json_dumps (JObj [(str ''status'', JStr (str ''received'')),
                                            (str ''timestamp'', JStr (timestamp ?r))]))"
      have a: "console_output e (body ?r) = None \<longrightarrow> out = ?ack"
      proof
        assume "console_output e (body ?r) = None"
        then have "console_output e b = None" by simp
        with o have "out = acknowledge e rq ?r" by simp
        then show "out = ?ack" by (simp only: acknowledge_eq)
      qed
      show ?thesis
      proof (intro exI [of _ ?r] conjI)
        show "rlog' = rlog @ [?r]" by (rule l)
        show "console_output e (body ?r) = None \<longrightarrow> out = ?ack" by (rule a)
        show "msg_get [(str ''Server'', version_string e), (str ''Date'', date_time_string e),
                       (str ''Content-type'', str ''application/json'')]
                (str ''Content-Type'') = Some (str ''application/json'')"
          by (rule hdr)
      qed
    qed
  next
    case False
    with assms show ?thesis by (simp add: WebhookHandler_unsupported)
  qed
qed

theorem ack_is_fixed_witness:
  "fst (WebhookHandler env0 post_order []) \<noteq> []
   \<and> console_output env0 (str ''{\"order_id\":42}'') = None
   \<and> map body (fst (WebhookHandler env0 post_order [])) = [str ''{\"order_id\":42}'']
   \<and> (\<exists>r. fst (WebhookHandler env0 post_order []) = [r]
          \<and> snd (WebhookHandler env0 post_order [])
              = Sent 200
                  [(str ''Server'', version_string env0), (str ''Date'', date_time_string env0),
                   (str ''Content-type'', str ''application/json'')]
                  (json_dumps (JObj [(str ''status'', JStr (str ''received'')),
                                     (str ''timestamp'', JStr (timestamp r))])))"
proof -
  let ?W = "WebhookHandler env0 post_order []"
  let ?body = "\<lambda>r. json_dumps (JObj [(str ''status'', JStr (str ''received'')),
                                       (str ''timestamp'', JStr (timestamp r))])"
  let ?hs = "[(str ''Server'', version_string env0), (str ''Date'', date_time_string env0),
              (str ''Content-type'', str ''application/json'')]"
  let ?ack = "\<lambda>r. if request_version post_order = str ''HTTP/0.9'' then BodyOnly (?body r)
                   else Sent 200 ?hs (?body r)"
  have ne: "fst ?W \<noteq> []"
    by code_simp
  have b: "map body (fst ?W) = [str ''{\"order_id\":42}'']"
    by code_simp
  have tr: "console_output env0 (str ''{\"order_id\":42}'') = None"
    by (simp add: console_output_def env0_def)
  have v: "request_version post_order \<noteq> str ''HTTP/0.9''"
    by (simp add: post_order_def)
  have "\<exists>r. fst ?W = [] @ [r]
            \<and> (console_output env0 (body r) = None \<longrightarrow> snd ?W = ?ack r)
            \<and> msg_get ?hs (str ''Content-Type'') = Some (str ''application/json'')"
    by (rule ack_is_fixed_and_carries_record_timestamp [OF prod.collapse [symmetric] ne])
  then obtain r where R: "fst ?W = [] @ [r]
            \<and> (console_output env0 (body r) = None \<longrightarrow> snd ?W = ?ack r)
            \<and> msg_get ?hs (str ''Content-Type'') = Some (str ''application/json'')" ..
  from R have r: "fst ?W = [r]" by (simp only: append_Nil)
  from R have o: "console_output env0 (body r) = None \<longrightarrow> snd ?W = ?ack r"
    by (rule conjunct1 [OF conjunct2])
  from b have "[body r] = [str ''{\"order_id\":42}'']"
    unfolding r by (simp only: list.map)
  then have "body r = str ''{\"order_id\":42}''" by (simp only: list.inject)
  with tr have "console_output env0 (body r) = None" by (simp only:)
  with o have "snd ?W = ?ack r" by (rule mp)
  with v have s: "snd ?W = Sent 200 ?hs (?body r)" by (simp only: if_False)
  from r s have "fst ?W = [r] \<and> snd ?W = Sent 200 ?hs (?body r)" by (rule conjI)
  then have "\<exists>r. fst ?W = [r] \<and> snd ?W = Sent 200 ?hs (?body r)" by (rule exI)
  with ne tr b show ?thesis by (intro conjI)
qed

theorem captured_request_without_a_200:
  "map rpath (fst (WebhookHandler env0 versionless_get [])) = [str ''/'']
   \<and> snd (WebhookHandler env0 versionless_get [])
       = BodyOnly (str ''{\"status\": \"received\", \"timestamp\": \"2024-05-01T12:00:00.000001\"}'')
   \<and> map rpath (fst (WebhookHandler env_markup tag_path_request [])) = [str ''/[/x]'']
   \<and> snd (WebhookHandler env_markup tag_path_request []) = Raised MarkupError
   \<and> map body (fst (WebhookHandler env_preview tag_body_request [])) = [str ''[/x]'']
   \<and> snd (WebhookHandler env_preview tag_body_request []) = Raised MarkupError"
  by code_simp




text \<open>
  C2, as the code has it. A request whose method is \<^verbatim>\<open>GET\<close>, \<^verbatim>\<open>POST\<close>, \<^verbatim>\<open>PUT\<close>, \<^verbatim>\<open>DELETE\<close> or
  \<^verbatim>\<open>PATCH\<close>, whose body is read and whose trace and preview are printed is captured, with
  the method as received, and acknowledged; a request with any other method is answered
  with the 501 page of \<^verbatim>\<open>http.server\<close> and the log stays as it was.
\<close>

theorem only_five_methods_are_captured:
  "(command rq \<in> set WebhookHandler_methods \<and> read_body e rq = Inr b \<and> console_output e b = None
      \<longrightarrow> WebhookHandler e rq rlog
          = (rlog @ [\<lparr>timestamp = now e, rmethod = command rq, rpath = path rq,
                       rheaders = headers_dict (headers rq), body = b\<rparr>],
             acknowledge e rq \<lparr>timestamp = now e, rmethod = command rq, rpath = path rq,
                                rheaders = headers_dict (headers rq), body = b\<rparr>))
   \<and> (command rq \<notin> set WebhookHandler_methods
      \<longrightarrow> WebhookHandler e rq rlog = (rlog, SendError 501))"
  by (simp add: WebhookHandler_supported WebhookHandler_unsupported handle_request_def Let_def)

theorem only_five_methods_witness:
  "command post_order \<in> set WebhookHandler_methods
   \<and> read_body env0 post_order = Inr (str ''{\"order_id\":42}'')
   \<and> console_output env0 (str ''{\"order_id\":42}'') = None
   \<and> map rmethod (fst (WebhookHandler env0 post_order [])) = [str ''POST'']
   \<and> snd (WebhookHandler env0 post_order [])
       = acknowledge env0 post_order
           \<lparr>timestamp = now env0, rmethod = str ''POST'', rpath = path post_order,
            rheaders = headers_dict (headers post_order), body = str ''{\"order_id\":42}''\<rparr>
   \<and> command options_request \<notin> set WebhookHandler_methods
   \<and> WebhookHandler env0 options_request [] = ([], SendError 501)"
proof -
  have m: "command post_order \<in> set WebhookHandler_methods"
    by (simp add: post_order_def WebhookHandler_methods_def)
  have c: "command post_order = str ''POST''"
    by (simp add: post_order_def)
  have b: "read_body env0 post_order = Inr (str ''{\"order_id\":42}'')"
    by (simp add: read_body_def post_order_def py_lower_def py_int_eval cont_def sys_maxsize_def
          env0_def)
  have n: "command options_request \<notin> set WebhookHandler_methods"
    by (simp add: options_request_def WebhookHandler_methods_def)
  have tr: "console_output env0 (str ''{\"order_id\":42}'') = None"
    by (simp add: console_output_def env0_def)
  from only_five_methods_are_captured
         [where rq = post_order and b = "str ''{\"order_id\":42}''" and e = env0 and rlog = "[]"]
       only_five_methods_are_captured [where rq = options_request and e = env0 and rlog = "[]"]
       m b n c tr
  show ?thesis by simp
qed

theorem other_method_is_rejected:
  "WebhookHandler env0 options_request [] = ([], SendError 501)"
  by code_simp

text \<open>
  C4, as the code has it. Without a \<^verbatim>\<open>Content-Length\<close> header the handler takes the body to
  be empty: it appends a record with the empty body and, the trace printed, acknowledges.
  With a header that \<^verbatim>\<open>int\<close> rejects, the handler raises before it appends or writes
  anything; the serving loop catches the exception and goes on with the connections that
  follow.
\<close>

theorem missing_length_is_empty_body_and_bad_length_raises:
  "(msg_get (headers rq) (str ''Content-Length'') = None
      \<longrightarrow> fst (handle_request e meth rq rlog)
          = rlog @ [\<lparr>timestamp = now e, rmethod = meth, rpath = path rq,
                      rheaders = headers_dict (headers rq), body = []\<rparr>]
        \<and> (trace_line e = None
             \<longrightarrow> snd (handle_request e meth rq rlog)
                 = acknowledge e rq \<lparr>timestamp = now e, rmethod = meth, rpath = path rq,
                                      rheaders = headers_dict (headers rq), body = []\<rparr>))
   \<and> (msg_get (headers rq) (str ''Content-Length'') = Some v \<and> py_int v = Inl err
      \<longrightarrow> handle_request e meth rq rlog = (rlog, Raised err)
          \<and> (command rq \<in> set WebhookHandler_methods
               \<longrightarrow> serve ((e, rq) # conns) rlog
                   = (fst (serve conns rlog), Raised err # snd (serve conns rlog))))"
proof -
  have "handle_request e meth rq rlog = (rlog, Raised err)"
    if "msg_get (headers rq) (str ''Content-Length'') = Some v" "py_int v = Inl err"
    using that by (simp add: handle_request_def read_body_def)
  moreover have "serve ((e, rq) # conns) rlog
                   = (fst (serve conns rlog), Raised err # snd (serve conns rlog))"
    if "handle_request e (command rq) rq rlog = (rlog, Raised err)"
      "command rq \<in> set WebhookHandler_methods"
    using that by (simp add: WebhookHandler_supported case_prod_beta)
  moreover have "handle_request e (command rq) rq rlog = (rlog, Raised err)"
    if "msg_get (headers rq) (str ''Content-Length'') = Some v" "py_int v = Inl err"
    using that by (simp add: handle_request_def read_body_def)
  ultimately show ?thesis
    by (simp add: handle_request_def read_body_def console_output_def Let_def)
qed

theorem missing_and_bad_length_witness:
  "msg_get (headers get_request) (str ''Content-Length'') = None
   \<and> trace_line env0 = None
   \<and> map body (fst (handle_request env0 (str ''GET'') get_request [])) = [[]]
   \<and> snd (handle_request env0 (str ''GET'') get_request [])
       = acknowledge env0 get_request
           \<lparr>timestamp = now env0, rmethod = str ''GET'', rpath = path get_request,
            rheaders = headers_dict (headers get_request), body = []\<rparr>
   \<and> msg_get (headers bad_length_request) (str ''Content-Length'') = Some (str ''abc'')
   \<and> py_int (str ''abc'') = Inl ValueError
   \<and> command bad_length_request \<in> set WebhookHandler_methods
   \<and> handle_request env0 (str ''POST'') bad_length_request [] = ([], Raised ValueError)
   \<and> map body (fst (serve [(env0, bad_length_request), (env0, post_order)] []))
       = [str ''{\"order_id\":42}'']"
proof -
  have g: "msg_get (headers get_request) (str ''Content-Length'') = None"
    by (simp add: get_request_def)
  have h: "msg_get (headers bad_length_request) (str ''Content-Length'') = Some (str ''abc'')"
    by (simp add: bad_length_request_def py_lower_def)
  have p: "py_int (str ''abc'') = Inl ValueError"
    by (simp add: py_int_eval)
  have m: "command bad_length_request \<in> set WebhookHandler_methods"
    by (simp add: bad_length_request_def WebhookHandler_methods_def)
  have s: "map body (fst (serve [(env0, post_order)] [])) = [str ''{\"order_id\":42}'']"
    by code_simp
  have tr: "trace_line env0 = None"
    by (simp add: env0_def)
  from missing_length_is_empty_body_and_bad_length_raises
         [where rq = get_request and e = env0 and meth = "str ''GET''" and rlog = "[]"]
       missing_length_is_empty_body_and_bad_length_raises
         [where rq = bad_length_request and v = "str ''abc''" and err = ValueError
            and e = env0 and meth = "str ''POST''" and rlog = "[]"
            and conns = "[(env0, post_order)]"]
       g h p m s tr
  show ?thesis by simp
qed

theorem bad_length_is_not_processed:
  "WebhookHandler env0 bad_length_request [] = ([], Raised ValueError)"
  by code_simp

section \<open>Claims about the mock server\<close>

text \<open>
  C3, as the code has it. For a mock server whose configured body has the UTF-8 bytes
  \<open>bs\<close> and whose delay, when positive, is one that \<^verbatim>\<open>time.sleep\<close> takes, every request whose
  method is \<^verbatim>\<open>GET\<close>, \<^verbatim>\<open>POST\<close>, \<^verbatim>\<open>PUT\<close> or \<^verbatim>\<open>DELETE\<close>, whatever its path, headers and body, is
  answered after one sleep of the configured delay when that is positive: with exactly
  the configured status and \<open>bs\<close> when its version is not \<^verbatim>\<open>HTTP/0.9\<close>, and with \<open>bs\<close> alone,
  no status line before it, when it is; and so for every request of a sequence, however
  long.
\<close>

theorem mock_answers_configured_response:
  assumes "utf8_encode (response cfg) = Some bs"
    and "\<forall>c \<in> set conns. command (snd c) \<in> set MockHandler_methods"
    and "delay cfg > 0 \<longrightarrow> time_sleep (delay cfg) = None"
  shows "mock_server cfg conns
         = map (\<lambda>c. (if delay cfg > 0 then [Sleep (delay cfg)] else [],
                      if request_version (snd c) = str ''HTTP/0.9'' then BodyOnly bs
                      else Sent (status cfg)
                             [(str ''Server'', version_string (fst c)),
                              (str ''Date'', date_time_string (fst c)),
                              (str ''Content-type'', str ''application/json'')]
                             bs))
             conns"
proof -
  have "MockHandler cfg e rq
        = (if delay cfg > 0 then [Sleep (delay cfg)] else [],
           if request_version rq = str ''HTTP/0.9'' then BodyOnly bs
           else Sent (status cfg)
                  [(str ''Server'', version_string e), (str ''Date'', date_time_string e),
                   (str ''Content-type'', str ''application/json'')]
                  bs)"
    if "command rq \<in> set MockHandler_methods" for e rq
    using that assms(1,3)
    by (auto simp: MockHandler_def MockHandler_methods_def respond_def send_response_def
          send_header_def wfile_write_def)
  with assms(2) show ?thesis
    by (auto simp: mock_server_def)
qed

theorem mock_answers_configured_witness:
  "utf8_encode (response teapot) = Some (str ''{\"teapot\":true}'')
   \<and> map (\<lambda>c. command (snd c)) [(env0, get_request), (env0, post_order), (env0, versionless_get)]
       = [str ''GET'', str ''POST'', str ''GET'']
   \<and> time_sleep (delay teapot) = None
   \<and> map snd (mock_server teapot [(env0, get_request), (env0, post_order), (env0, versionless_get)])
       = [Sent 418 [(str ''Server'', version_string env0), (str ''Date'', date_time_string env0),
                    (str ''Content-type'', str ''application/json'')]
            (str ''{\"teapot\":true}''),
          Sent 418 [(str ''Server'', version_string env0), (str ''Date'', date_time_string env0),
                    (str ''Content-type'', str ''application/json'')]
            (str ''{\"teapot\":true}''),
          BodyOnly (str ''{\"teapot\":true}'')]
   \<and> map fst (mock_server teapot [(env0, get_request), (env0, post_order), (env0, versionless_get)])
       = replicate 3 [Sleep 5]"
proof -
  have b: "utf8_encode (response teapot) = Some (str ''{\"teapot\":true}'')"
    by (simp add: teapot_def utf8_encode_char_def)
  have m: "\<forall>c \<in> set [(env0, get_request), (env0, post_order), (env0, versionless_get)].
             command (snd c) \<in> set MockHandler_methods"
    by (simp add: get_request_def post_order_def versionless_get_def MockHandler_methods_def)
  have t: "status teapot = 418" "delay teapot = 5"
    by (simp_all add: teapot_def)
  have sl: "time_sleep (delay teapot) = None"
    by (simp add: teapot_def time_sleep_def)
  have c: "map (\<lambda>c. command (snd c)) [(env0, get_request), (env0, post_order), (env0, versionless_get)]
           = [str ''GET'', str ''POST'', str ''GET'']"
    by (simp add: get_request_def post_order_def versionless_get_def)
  have v: "request_version get_request \<noteq> str ''HTTP/0.9''"
    "request_version post_order \<noteq> str ''HTTP/0.9''"
    "request_version versionless_get = str ''HTTP/0.9''"
    by (simp_all add: get_request_def post_order_def versionless_get_def)
  from sl have sl': "delay teapot > 0 \<longrightarrow> time_sleep (delay teapot) = None" by simp
  from mock_answers_configured_response [OF b m sl'] b c t sl v
  show ?thesis by (simp add: numeral_3_eq_3)
qed

theorem mock_rejects_other_method:
  "MockHandler teapot env0 options_request = ([], SendError 501)"
  by code_simp

section \<open>Claims about the sender\<close>

text \<open>
  C5, at an input where the code departs from it: two attempts against a host that refuses
  the connection, with a delay of one second, on a console that prints every line. Both
  calls are made and both failures are reported, and there is no sleep between them: the
  sleep of line 155 stands inside the \<^verbatim>\<open>try\<close> block after the call, so an attempt that raises
  skips it. Where the code does sleep is \<open>sleeps_of_send_loop\<close>: after every attempt but the
  last that got a response.
\<close>

theorem no_delay_after_a_failed_attempt:
  "send_loop (str ''POST'') 2 1 unreachable printed
   = ([HttpCall (str ''POST'') True, PrintError ConnectionError,
       HttpCall (str ''POST'') True, PrintError ConnectionError,
       PrintSent 2], None)"
  by code_simp



section \<open>Claims about the servers as a whole\<close>

text \<open>
  C8, as the code has it. The capture history is the one module-level list of the process:
  a run of \<^verbatim>\<open>listen\<close> starts from whatever the list holds, appends its own records behind
  them and saves the whole list. Only when the list was empty before the run is the log
  the run's own.
\<close>

theorem log_is_shared_by_all_runs:
  "start_listener save conns (rlog, fs)
   = ((rlog @ fst (serve conns []), save_requests save (rlog @ fst (serve conns [])) fs),
      snd (serve conns []))"
proof -
  have "start_listener save conns (rlog, fs)
        = ((fst (serve conns rlog), save_requests save (fst (serve conns rlog)) fs),
           snd (serve conns rlog))"
    by (simp add: start_listener_def Let_def case_prod_beta)
  also have "serve conns rlog = (rlog @ fst (serve conns []), snd (serve conns []))"
    by (rule serve_append)
  finally show ?thesis by simp
qed

theorem later_run_sees_earlier_records:
  "map rpath (fst (fst (start_listener None []
                          (fst (start_listener None [(env0, post_order)] ([], Map.empty))))))
   = [str ''/hooks/test'']"
  by code_simp

text \<open>
  C9, as the code has it. Neither server handles two connections at once. In the loop of
  \<^verbatim>\<open>listen\<close> and in the loop of \<^verbatim>\<open>mock\<close>, of any two connections the handler of the later
  one starts only when the handler of the earlier one has finished, however early the
  later connection arrived; for \<^verbatim>\<open>listen\<close> this takes that no handler needs a negative
  time, and for \<^verbatim>\<open>mock\<close> it holds as it is, a handler taking the time it sleeps. The
  outcomes, and the log of \<^verbatim>\<open>listen\<close>, are those of \<open>serve\<close> and \<open>mock_server\<close>, which the
  other claims are about.
\<close>

theorem connections_are_served_one_at_a_time:
  assumes "i < j"
  shows "(j < length conns \<and> (\<forall>c \<in> set conns. 0 \<le> fst (snd c))
            \<longrightarrow> fst (snd (snd (listen_on_clock t conns rlog) ! i))
                \<le> fst (snd (listen_on_clock t conns rlog) ! j))
       \<and> (j < length mconns
            \<longrightarrow> fst (snd (mock_on_clock cfg t mconns ! i)) \<le> fst (mock_on_clock cfg t mconns ! j))
       \<and> fst (listen_on_clock t conns rlog) = fst (serve (map (\<lambda>c. snd (snd c)) conns) rlog)
       \<and> map (\<lambda>x. snd (snd x)) (snd (listen_on_clock t conns rlog))
           = snd (serve (map (\<lambda>c. snd (snd c)) conns) rlog)
       \<and> map (\<lambda>x. snd (snd x)) (mock_on_clock cfg t mconns) = mock_server cfg (map snd mconns)"
proof -
  have l: "fst (snd (snd (listen_on_clock t conns rlog) ! i))
           \<le> fst (snd (listen_on_clock t conns rlog) ! j)"
    if "j < length conns" "\<forall>c \<in> set conns. 0 \<le> fst (snd c)"
    unfolding listen_on_clock_def
  proof (rule serve_forever_sequential [OF _ assms that(1)])
    from that(2)
    show "\<forall>x \<in> set conns. \<forall>s. 0 \<le> snd (snd ((\<lambda>(took, e, rq) rlog.
              case WebhookHandler e rq rlog of (rlog', out) \<Rightarrow> (rlog', out, took)) (snd x) s))"
      by (auto simp: case_prod_beta)
  qed
  have m: "fst (snd (mock_on_clock cfg t mconns ! i)) \<le> fst (mock_on_clock cfg t mconns ! j)"
    if "j < length mconns"
    unfolding mock_on_clock_def
  proof (rule serve_forever_sequential [OF _ assms that])
    show "\<forall>x \<in> set mconns. \<forall>s. 0 \<le> snd (snd ((\<lambda>(e, rq) u.
              case MockHandler cfg e rq of (fx, out) \<Rightarrow> (u, (fx, out), sleep_time fx)) (snd x) s))"
      by (simp add: case_prod_beta sleep_time_MockHandler)
  qed
  from l m listen_on_clock_serve [of t conns rlog] mock_on_clock_server [of cfg t mconns]
  show ?thesis by blast
qed

theorem one_at_a_time_witness:
  "(0 :: nat) < 1
   \<and> map (\<lambda>c. fst (snd c)) [(0 :: real, 3 :: real, env0, post_order), (1, 0, env0, get_request)] = [3, 0]
   \<and> map (\<lambda>x. (fst x, fst (snd x)))
         (snd (listen_on_clock 0 [(0, 3, env0, post_order), (1, 0, env0, get_request)] []))
       = [(0, 3), (3, 3)]
   \<and> map (\<lambda>x. (fst x, fst (snd x)))
         (mock_on_clock teapot 0 [(0, env0, get_request), (1, env0, post_order)])
       = [(0, 5), (5, 10)]
   \<and> fst (snd (snd (listen_on_clock 0 [(0, 3, env0, post_order), (1, 0, env0, get_request)] []) ! 0))
       \<le> fst (snd (listen_on_clock 0 [(0, 3, env0, post_order), (1, 0, env0, get_request)] []) ! 1)
   \<and> fst (snd (mock_on_clock teapot 0 [(0, env0, get_request), (1, env0, post_order)] ! 0))
       \<le> fst (mock_on_clock teapot 0 [(0, env0, get_request), (1, env0, post_order)] ! 1)
   \<and> map rpath (fst (listen_on_clock 0 [(0, 3, env0, post_order), (1, 0, env0, get_request)] []))
       = [str ''/hooks/test'', str ''/'']"
proof -
  have lt: "(0 :: nat) < 1" by simp
  have a: "map (\<lambda>x. (fst x, fst (snd x)))
             (snd (listen_on_clock 0 [(0, 3, env0, post_order), (1, 0, env0, get_request)] []))
           = [(0, 3), (3, 3)]"
    by (simp add: listen_on_clock_def Let_def case_prod_beta)
  have b: "map (\<lambda>x. (fst x, fst (snd x)))
             (mock_on_clock teapot 0 [(0, env0, get_request), (1, env0, post_order)])
           = [(0, 5), (5, 10)]"
    by (simp add: mock_on_clock_def Let_def case_prod_beta MockHandler_def respond_def
          get_request_def post_order_def teapot_def time_sleep_def sleep_time_def)
  have s: "map rpath (fst (serve [(env0, post_order), (env0, get_request)] []))
           = [str ''/hooks/test'', str ''/'']"
    by code_simp
  from connections_are_served_one_at_a_time
         [OF lt, of "[(0, 3, env0, post_order), (1, 0, env0, get_request)]" 0 "[]"
             "[(0, env0, get_request), (1, env0, post_order)]" teapot]
       a b s
  show ?thesis by simp
qed

theorem slow_client_stalls_the_next:
  "map (\<lambda>x. (fst x, fst (snd x)))
     (mock_on_clock teapot 0 [(0, env0, get_request), (0, env0, get_request)])
   = [(0, 5), (5, 10)]
   \<and> map (\<lambda>x. (fst x, fst (snd x)))
       (snd (listen_on_clock 0 [(0, 3, env0, post_order), (1, 0, env0, get_request)] []))
     = [(0, 3), (3, 3)]"
  by (simp add: mock_on_clock_def listen_on_clock_def Let_def case_prod_beta MockHandler_def
        respond_def get_request_def teapot_def time_sleep_def sleep_time_def)

section \<open>Claims about the saved capture\<close>

text \<open>
  C1, as the code has it. For a save path that is not empty and a log that is not empty
  and whose strings hold scalar values only (as those of every log the server builds do,
  \<open>serve_wf\<close>), the file the save step of \<^verbatim>\<open>listen\<close> writes is read back by the load step of
  \<^verbatim>\<open>inspect\<close> as the list of the log's entries, in order, and that list determines the log
  field for field. An empty log is not written at all, and two adjacent surrogate code
  points would be read back as one character (\<open>escaped_surrogates_are_joined\<close>).
\<close>

theorem load_after_save_is_the_log:
  assumes "p \<noteq> []" and "rlog \<noteq> []" and "list_all wf_record rlog"
  shows "load (save_requests (Some p) rlog fs) p = Inr (JArr (map to_json rlog))
       \<and> (\<forall>rlog'. JArr (map to_json rlog') = JArr (map to_json rlog) \<longrightarrow> rlog' = rlog)"
  using load_save_requests [OF assms, of fs] by (auto dest: map_to_json_inject)

theorem load_after_save_witness:
  "str ''capture.json'' \<noteq> []
   \<and> fst (serve [(env0, post_order)] []) \<noteq> []
   \<and> list_all wf_record (fst (serve [(env0, post_order)] []))
   \<and> load (save_requests (Some (str ''capture.json'')) (fst (serve [(env0, post_order)] [])) Map.empty)
        (str ''capture.json'')
       = Inr (JArr (map to_json (fst (serve [(env0, post_order)] []))))"
proof -
  have p: "str ''capture.json'' \<noteq> []" by simp
  have n: "fst (serve [(env0, post_order)] []) \<noteq> []" by code_simp
  have "list_all wf_conn [(env0, post_order)]"
    by (simp add: wf_conn_def latin1_def env0_def post_order_def scalar_def)
  then have w: "list_all wf_record (fst (serve [(env0, post_order)] []))"
    by (rule serve_wf) simp
  from load_after_save_is_the_log [OF p n w, of Map.empty] p n w
  show ?thesis by simp
qed

theorem empty_log_is_not_saved:
  "load (save_requests (Some (str ''capture.json'')) [] Map.empty) (str ''capture.json'')
   = Inl FileNotFoundError"
  by (simp add: save_requests_def load_def)

end
